theory Spec2Isabelle
  imports Complex_Main "HOL-Library.Signed_Division"
begin

section \<open>Data model of the dense CRF layer\<close>

text \<open>
  The embedding follows \<^verbatim>\<open>src/caffe/layers/densecrf_layer.cpp\<close>. Numeric buffers
  (\<^verbatim>\<open>float*\<close>, \<^verbatim>\<open>Dtype*\<close>) are lists of reals: arithmetic is exact, rounding is not
  modelled. C++ \<^verbatim>\<open>int\<close> members are \<open>int\<close>. A member \<^verbatim>\<open>x_\<close> of the class is the record
  field \<open>x_m\<close>, since an Isabelle name cannot end in an underscore. A buffer index \<open>i\<close> is
  used as \<open>nat i\<close>.
\<close>

type_synonym buf = "real list"

text \<open>
  Modelled from the spec: the tensor container \<^verbatim>\<open>Blob\<close> (blob.hpp is not part of the
  sources at hand). A tensor has shape [num, channels, height, width] in channel-major
  layout; \<open>offset b n\<close> is the index of the first entry of image \<open>n\<close>. Reshaping sets the
  shape and provides storage for at least \<open>count\<close> entries.
\<close>

record blob =
  num :: int
  channels :: int
  height :: int
  width :: int
  data :: buf

definition count :: "blob \<Rightarrow> int" where
  "count b = num b * channels b * height b * width b"

definition offset :: "blob \<Rightarrow> int \<Rightarrow> int" where
  "offset b n = n * channels b * height b * width b"

definition blob_Reshape :: "blob \<Rightarrow> int \<Rightarrow> int \<Rightarrow> int \<Rightarrow> int \<Rightarrow> blob" where
  "blob_Reshape b n c h w =
     b\<lparr>num := n, channels := c, height := h, width := w,
       data := (if int (length (data b)) < n * c * h * w
                then replicate (nat (n * c * h * w)) 0 else data b)\<rparr>"

definition empty_blob :: blob where
  "empty_blob = \<lparr>num = 0, channels = 0, height = 0, width = 0, data = []\<rparr>"

text \<open>
  A fatal \<^verbatim>\<open>CHECK_*\<close> failure aborts the call with its message. The other errors are
  faults of the C++ program, which the model makes visible: reading \<^verbatim>\<open>bottom[i]\<close> beyond
  the size of the input vector and reading or writing a buffer outside its allocation are
  undefined behaviour (\<open>BufferOverrun\<close> names the operation), and \<^verbatim>\<open>new float[n]\<close> with a
  negative \<open>n\<close> throws (\<open>BadArrayLength n\<close>).
\<close>

datatype error = CheckFailed string | BottomOutOfRange nat | BufferOverrun string
  | BadArrayLength int

definition aborted :: "error + 'a \<Rightarrow> bool" where
  "aborted r = (case r of Inl e \<Rightarrow> True | Inr x \<Rightarrow> False)"

definition bottom_at :: "blob list \<Rightarrow> nat \<Rightarrow> error + blob" where
  "bottom_at bottom i = (if i < length bottom then Inr (bottom ! i) else Inl (BottomOutOfRange i))"

record DenseCRFParameter =
  p_max_iter :: int
  p_pos_w :: "real list"
  p_pos_xy_std :: "real list"
  p_bi_w :: "real list"
  p_bi_xy_std :: "real list"
  p_bi_rgb_std :: "real list"

text \<open>
  A pairwise potential as the layer builds it: \<^verbatim>\<open>new PottsPotential(features, D, N, w)\<close>.
  The class itself (densecrf_pairwise.hpp) is an external capability; its \<^verbatim>\<open>apply\<close> is a
  parameter of the model, as is \<^verbatim>\<open>fast_exp\<close> (densecrf_util.hpp).
\<close>

record PottsPotential =
  pp_features :: buf
  pp_D :: int
  pp_N :: int
  pp_w :: real

record externals =
  fast_exp :: "real \<Rightarrow> real"
  potts_apply :: "PottsPotential \<Rightarrow> buf \<Rightarrow> buf \<Rightarrow> buf \<Rightarrow> int \<Rightarrow> buf \<times> buf"

text \<open>
  The members of \<^verbatim>\<open>DenseCRFLayer\<close>. \<open>alloc_count\<close> is a ghost field: it counts the calls
  of \<^verbatim>\<open>AllocateAllData\<close> and is read by no operation. A \<^verbatim>\<open>NULL\<close> buffer is the empty list.
\<close>

record DenseCRFLayer =
  max_iter_m :: int
  pos_w_m :: "real list"
  pos_xy_std_m :: "real list"
  bi_w_m :: "real list"
  bi_xy_std_m :: "real list"
  bi_rgb_std_m :: "real list"
  has_image :: bool
  unary_element_m :: int
  map_element_m :: int
  unary_m :: buf
  current_m :: buf
  next_m :: buf
  tmp_m :: buf
  num_m :: int
  M_m :: int
  pad_height_m :: int
  pad_width_m :: int
  H_m :: int
  W_m :: int
  N_m :: int
  sum_multiplier_m :: blob
  scale_m :: blob
  norm_data_m :: blob
  pairwise_m :: "PottsPotential list"
  alloc_count :: nat

definition new_layer :: DenseCRFLayer where
  "new_layer = \<lparr>max_iter_m = 0, pos_w_m = [], pos_xy_std_m = [], bi_w_m = [],
     bi_xy_std_m = [], bi_rgb_std_m = [], has_image = False, unary_element_m = 0,
     map_element_m = 0, unary_m = [], current_m = [], next_m = [], tmp_m = [],
     num_m = 0, M_m = 0, pad_height_m = 0, pad_width_m = 0, H_m = 0, W_m = 0, N_m = 0,
     sum_multiplier_m = empty_blob, scale_m = empty_blob, norm_data_m = empty_blob,
     pairwise_m = [], alloc_count = 0\<rparr>"

section \<open>Setup\<close>

definition LayerSetUp ::
  "DenseCRFParameter \<Rightarrow> blob list \<Rightarrow> DenseCRFLayer \<Rightarrow> error + DenseCRFLayer" where
  "LayerSetUp dense_crf_param bottom st =
    (let st1 = st\<lparr>max_iter_m := p_max_iter dense_crf_param,
                 pos_w_m := pos_w_m st @ p_pos_w dense_crf_param,
                 pos_xy_std_m := pos_xy_std_m st @ p_pos_xy_std dense_crf_param,
                 bi_w_m := bi_w_m st @ p_bi_w dense_crf_param,
                 bi_xy_std_m := bi_xy_std_m st @ p_bi_xy_std dense_crf_param,
                 bi_rgb_std_m := bi_rgb_std_m st @ p_bi_rgb_std dense_crf_param\<rparr>;
         finish = (\<lambda>s. s\<lparr>unary_element_m := 0, map_element_m := 0,
                       unary_m := [], current_m := [], next_m := [], tmp_m := []\<rparr>)
     in if length (pos_w_m st1) \<noteq> length (pos_xy_std_m st1)
        then Inl (CheckFailed ''pos_w and pos_xy_std should have the same size.'')
        else if length (bi_w_m st1) \<noteq> length (bi_xy_std_m st1)
        then Inl (CheckFailed ''bi_w and bi_xy_std should have the same size.'')
        else if length (bi_w_m st1) \<noteq> length (bi_rgb_std_m st1)
        then Inl (CheckFailed ''bi_w and bi_rgb_std should have the same size.'')
        else if \<not> 2 \<le> length bottom
        then Inl (CheckFailed
          ''bottom must have size larger than 2 (i.e., DCNN output and image dim).'')
        else if length bottom \<le> 2
        then Inr (finish (st1\<lparr>has_image := False\<rparr>))
        else if \<not> 0 < length (bi_w_m st1)
        then Inl (CheckFailed ''has image as input, but no bilateral parameters specified.'')
        else if channels (bottom ! 2) \<noteq> 3
        then Inl (CheckFailed ''Can Only support color images for now.'')
        else Inr (finish (st1\<lparr>has_image := True\<rparr>)))"

text \<open>
  Modelled from the spec: \<^verbatim>\<open>allocate\<close> and \<^verbatim>\<open>deallocate\<close> (densecrf_util.hpp is not part
  of the sources at hand). A fresh buffer has the requested number of entries; their
  content is not specified, zero stands for it. Releasing a buffer resets it to \<^verbatim>\<open>NULL\<close>.
  The list holds the requested entries only: what an allocation may hold beyond them
  (alignment padding for the vector loop) is not represented, and a list update beyond
  the end of the list changes nothing.
\<close>

definition allocate :: "int \<Rightarrow> buf" where
  "allocate n = replicate (nat n) 0"

definition DeAllocateAllData :: "DenseCRFLayer \<Rightarrow> DenseCRFLayer" where
  "DeAllocateAllData st = st\<lparr>unary_m := [], current_m := [], next_m := [], tmp_m := []\<rparr>"

definition AllocateAllData :: "DenseCRFLayer \<Rightarrow> DenseCRFLayer" where
  "AllocateAllData st =
     st\<lparr>unary_m := allocate (unary_element_m st),
        current_m := allocate (unary_element_m st),
        next_m := allocate (unary_element_m st),
        tmp_m := allocate (unary_element_m st),
        alloc_count := Suc (alloc_count st)\<rparr>"

definition fill_ones :: "blob \<Rightarrow> blob" where
  "fill_ones b = b\<lparr>data := fold (\<lambda>i d. d[nat i := 1]) [0..count b - 1] (data b)\<rparr>"

definition Reshape ::
  "blob list \<Rightarrow> blob \<times> blob \<Rightarrow> DenseCRFLayer \<Rightarrow> error + DenseCRFLayer \<times> (blob \<times> blob)" where
  "Reshape bottom tops st =
    (case bottom_at bottom 0 of
       Inl e \<Rightarrow> Inl e
     | Inr b0 \<Rightarrow>
        (let st1 = st\<lparr>num_m := num b0, M_m := channels b0,
                      pad_height_m := height b0, pad_width_m := width b0\<rparr>
         in (case bottom_at bottom 1 of
               Inl e \<Rightarrow> Inl e
             | Inr b1 \<Rightarrow>
                (if num b0 \<noteq> num b1
                 then Inl (CheckFailed ''The DCNN output and data should have the same number.'')
                 else (case bottom_at bottom 2 of
                         Inl e \<Rightarrow> Inl e
                       | Inr b2 \<Rightarrow>
     (if num b1 \<noteq> num b2
      then Inl (CheckFailed ''The data and data dimension should have the same number.'')
      else if has_image st1 \<and> height b0 \<noteq> height b2
      then Inl (CheckFailed
        ''DCNN output after upsampling should have the same height as image.'')
      else if has_image st1 \<and> width b0 \<noteq> width b2
      then Inl (CheckFailed
        ''DCNN output after upsampling should have the same width as image.'')
      else
       (let num_pixel = pad_height_m st1 * pad_width_m st1;
            cur_unary_element = num_pixel * M_m st1;
            st2 = (if unary_element_m st1 < cur_unary_element
                   then AllocateAllData (DeAllocateAllData
                          (st1\<lparr>unary_element_m := cur_unary_element,
                               map_element_m := num_pixel\<rparr>))
                   else st1);
            top0 = blob_Reshape (fst tops) (num_m st2) (M_m st2)
                     (pad_height_m st2) (pad_width_m st2);
            top1 = blob_Reshape (snd tops) (num_m st2) 1 (pad_height_m st2) (pad_width_m st2);
            st3 = st2\<lparr>sum_multiplier_m :=
                         fill_ones (blob_Reshape (sum_multiplier_m st2) 1 (M_m st2) 1 1),
                       scale_m := blob_Reshape (scale_m st2) 1 1
                         (pad_height_m st2) (pad_width_m st2),
                       norm_data_m := blob_Reshape (norm_data_m st2) 1 (M_m st2)
                         (pad_height_m st2) (pad_width_m st2)\<rparr>
        in Inr (st3, (top0, top1)))))))))"

section \<open>Mean-field inference\<close>

text \<open>
  \<^verbatim>\<open>ExpAndNormalize(out, in, scale)\<close>: one pass of the outer loop over pixel \<open>i\<close>. The local
  array \<^verbatim>\<open>V\<close> is the list \<open>V\<close>, filled for \<open>j = 0 .. M_ - 1\<close>; \<open>tt\<close> accumulates it from 0.
\<close>

definition ExpAndNormalize_pixel ::
  "externals \<Rightarrow> int \<Rightarrow> buf \<Rightarrow> real \<Rightarrow> int \<Rightarrow> buf \<Rightarrow> buf" where
  "ExpAndNormalize_pixel ext M inp scale i out =
    (let b = (\<lambda>j. inp ! nat (i * M + j));
         mx = fold (\<lambda>j mx. if mx < scale * b j then scale * b j else mx)
                [1..M - 1] (scale * b 0);
         V = map (\<lambda>j. fast_exp ext (scale * b j - mx)) [0..M - 1];
         tt = fold (\<lambda>v t. t + v) V 0;
         V' = map (\<lambda>v. v / tt) V
     in fold (\<lambda>j a. a[nat (i * M + j) := V' ! nat j]) [0..M - 1] out)"

definition ExpAndNormalize :: "externals \<Rightarrow> DenseCRFLayer \<Rightarrow> buf \<Rightarrow> buf \<Rightarrow> real \<Rightarrow> buf" where
  "ExpAndNormalize ext st out inp scale =
     fold (ExpAndNormalize_pixel ext (M_m st) inp scale) [0..N_m st - 1] out"

definition StartInference :: "externals \<Rightarrow> DenseCRFLayer \<Rightarrow> DenseCRFLayer" where
  "StartInference ext st =
     st\<lparr>current_m := ExpAndNormalize ext st (current_m st) (unary_m st) (- 1)\<rparr>"

text \<open>
  The two variants of the unary step of \<^verbatim>\<open>StepInference\<close>. The scalar loop negates entry
  by entry. Under \<^verbatim>\<open>SSE_DENSE_CRF\<close> the loop runs over \<^verbatim>\<open>(N_*M_-1)/4+1\<close> vectors of four
  entries each; C++ integer division truncates towards zero (\<open>sdiv\<close>).
\<close>

definition negate_scalar :: "DenseCRFLayer \<Rightarrow> buf" where
  "negate_scalar st =
     fold (\<lambda>i nx. nx[nat i := - (unary_m st ! nat i)]) [0..N_m st * M_m st - 1] (next_m st)"

definition negate_sse :: "DenseCRFLayer \<Rightarrow> buf" where
  "negate_sse st =
     fold (\<lambda>i nx. fold (\<lambda>k nx. nx[nat (4 * i + k) := - (unary_m st ! nat (4 * i + k))])
                     [0..3] nx)
       [0..((N_m st * M_m st - 1) sdiv 4 + 1) - 1] (next_m st)"

definition apply_pairwise :: "externals \<Rightarrow> DenseCRFLayer \<Rightarrow> buf \<times> buf \<Rightarrow> buf \<times> buf" where
  "apply_pairwise ext st =
     fold (\<lambda>p (nx, tmp). potts_apply ext p nx (current_m st) tmp (M_m st)) (pairwise_m st)"

definition StepInference :: "externals \<Rightarrow> bool \<Rightarrow> DenseCRFLayer \<Rightarrow> DenseCRFLayer" where
  "StepInference ext SSE_DENSE_CRF st =
    (let nx = (if SSE_DENSE_CRF then negate_sse st else negate_scalar st);
         r = apply_pairwise ext st (nx, tmp_m st)
     in st\<lparr>next_m := fst r, tmp_m := snd r,
           current_m := ExpAndNormalize ext st (current_m st) (fst r) 1\<rparr>)"

function RunInference_loop ::
  "externals \<Rightarrow> bool \<Rightarrow> int \<Rightarrow> DenseCRFLayer \<Rightarrow> DenseCRFLayer" where
  "RunInference_loop ext sse i st =
     (if i < max_iter_m st
      then RunInference_loop ext sse (i + 1) (StepInference ext sse st) else st)"
  by pat_completeness auto
termination
  by (relation "measure (\<lambda>(ext, sse, i, st). nat (max_iter_m st - i))")
     (auto simp: StepInference_def Let_def)

declare RunInference_loop.simps [simp del]

definition RunInference :: "externals \<Rightarrow> bool \<Rightarrow> DenseCRFLayer \<Rightarrow> DenseCRFLayer" where
  "RunInference ext sse st = RunInference_loop ext sse 0 (StartInference ext st)"

section \<open>MAP decoding\<close>

definition memset_zero :: "buf \<Rightarrow> int \<Rightarrow> int \<Rightarrow> buf" where
  "memset_zero xs off n = fold (\<lambda>i ys. ys[nat i := 0]) [off..off + n - 1] xs"

text \<open>
  The body of the channel loop of \<^verbatim>\<open>ComputeMap\<close> for \<open>c \<ge> 1\<close>: the state is
  (\<^verbatim>\<open>top_inf\<close>, \<^verbatim>\<open>mx\<close>, \<^verbatim>\<open>imx\<close>); \<open>o_inf\<close> is \<^verbatim>\<open>top[0]->offset(num)\<close>.
\<close>

definition ComputeMap_channel ::
  "DenseCRFLayer \<Rightarrow> int \<Rightarrow> int \<Rightarrow> int \<Rightarrow> int \<Rightarrow> int \<Rightarrow> int \<Rightarrow> buf \<times> real \<times> int
     \<Rightarrow> buf \<times> real \<times> int" where
  "ComputeMap_channel st o_inf top_height top_width h w c s =
    (case s of (top_inf, mx, imx) \<Rightarrow>
     let in_index = (h * W_m st + w) * M_m st + c;
         out_index = (c * top_height + h) * top_width + w;
         top_inf1 = top_inf[nat (o_inf + out_index) := current_m st ! nat in_index]
     in if mx < top_inf1 ! nat (o_inf + out_index)
        then (top_inf1, top_inf1 ! nat (o_inf + out_index), c)
        else (top_inf1, mx, imx))"

definition ComputeMap_pixel ::
  "DenseCRFLayer \<Rightarrow> int \<Rightarrow> int \<Rightarrow> int \<Rightarrow> int \<Rightarrow> int \<Rightarrow> int \<Rightarrow> buf \<times> buf \<Rightarrow> buf \<times> buf" where
  "ComputeMap_pixel st o_inf o_map top_height top_width h w s =
    (case s of (top_inf, top_map) \<Rightarrow>
     let in_index = (h * W_m st + w) * M_m st;
         out_index = h * top_width + w;
         top_inf1 = top_inf[nat (o_inf + out_index) := current_m st ! nat in_index];
         mx = top_inf1 ! nat (o_inf + out_index);
         r = fold (ComputeMap_channel st o_inf top_height top_width h w) [1..M_m st - 1]
               (top_inf1, mx, 0)
     in (fst r, top_map[nat (o_map + out_index) := of_int (snd (snd r))]))"

definition ComputeMap ::
  "externals \<Rightarrow> bool \<Rightarrow> int \<Rightarrow> blob \<times> blob \<Rightarrow> DenseCRFLayer
     \<Rightarrow> error + DenseCRFLayer \<times> (blob \<times> blob)" where
  "ComputeMap ext sse n tops st =
    (let o_inf = offset (fst tops) n;
         o_map = offset (snd tops) n;
         top_channels = channels (fst tops);
         top_height = height (fst tops);
         top_width = width (fst tops);
         inf0 = memset_zero (data (fst tops)) o_inf (top_channels * top_height * top_width);
         map0 = memset_zero (data (snd tops)) o_map (top_height * top_width)
     in if top_channels \<noteq> M_m st then Inl (CheckFailed ''Check failed: top_channels == M_'')
        else if top_height \<noteq> pad_height_m st
        then Inl (CheckFailed ''Check failed: top_height == pad_height_'')
        else if top_width \<noteq> pad_width_m st
        then Inl (CheckFailed ''Check failed: top_width == pad_width_'')
        else
          let st1 = RunInference ext sse st;
              r = fold (\<lambda>h. fold (ComputeMap_pixel st1 o_inf o_map top_height top_width h)
                               [0..W_m st1 - 1])
                    [0..H_m st1 - 1] (inf0, map0)
          in Inr (st1, ((fst tops)\<lparr>data := fst r\<rparr>, (snd tops)\<lparr>data := snd r\<rparr>)))"

section \<open>Pairwise kernels\<close>

definition ClearPairwiseFunctions :: "DenseCRFLayer \<Rightarrow> DenseCRFLayer" where
  "ClearPairwiseFunctions st = st\<lparr>pairwise_m := []\<rparr>"

definition gaussian_features :: "DenseCRFLayer \<Rightarrow> nat \<Rightarrow> buf" where
  "gaussian_features st k =
     fold (\<lambda>j. fold (\<lambda>i f.
              (f[nat ((j * W_m st + i) * 2 + 0) := of_int i / pos_xy_std_m st ! k])
                [nat ((j * W_m st + i) * 2 + 1) := of_int j / pos_xy_std_m st ! k])
            [0..W_m st - 1])
       [0..H_m st - 1] (replicate (nat (N_m st * 2)) 0)"

definition bilateral_features :: "DenseCRFLayer \<Rightarrow> buf \<Rightarrow> nat \<Rightarrow> buf" where
  "bilateral_features st im k =
    (let channel_offset = pad_height_m st * pad_width_m st
     in fold (\<lambda>j. fold (\<lambda>i f.
              let img_index = j * pad_width_m st + i
              in ((((f[nat ((j * W_m st + i) * 5 + 0) := of_int i / bi_xy_std_m st ! k])
                [nat ((j * W_m st + i) * 5 + 1) := of_int j / bi_xy_std_m st ! k])
                [nat ((j * W_m st + i) * 5 + 2) := im ! nat img_index / bi_rgb_std_m st ! k])
                [nat ((j * W_m st + i) * 5 + 3) :=
                   im ! nat (img_index + channel_offset) / bi_rgb_std_m st ! k])
                [nat ((j * W_m st + i) * 5 + 4) :=
                   im ! nat (img_index + 2 * channel_offset) / bi_rgb_std_m st ! k])
            [0..W_m st - 1])
       [0..H_m st - 1] (replicate (nat (N_m st * 5)) 0))"

definition SetupPairwiseFunctions :: "blob list \<Rightarrow> DenseCRFLayer \<Rightarrow> error + DenseCRFLayer" where
  "SetupPairwiseFunctions bottom st0 =
    (let st = ClearPairwiseFunctions st0;
         st1 = fold (\<lambda>k s. s\<lparr>pairwise_m := pairwise_m s @
                  [\<lparr>pp_features = gaussian_features s k, pp_D = 2, pp_N = N_m s,
                    pp_w = pos_w_m s ! k\<rparr>]\<rparr>)
                 [0..<length (pos_w_m st)] st
     in if has_image st1
        then (case bottom_at bottom 2 of Inl e \<Rightarrow> Inl e | Inr b2 \<Rightarrow>
                Inr (fold (\<lambda>k s. s\<lparr>pairwise_m := pairwise_m s @
                       [\<lparr>pp_features = bilateral_features s (data b2) k, pp_D = 5,
                         pp_N = N_m s, pp_w = bi_w_m s ! k\<rparr>]\<rparr>)
                      [0..<length (bi_w_m st1)] st1))
        else Inr st1)"

section \<open>Unary energy\<close>

text \<open>
  Modelled from the spec: the numeric helpers of math_functions.hpp are not part of the
  sources at hand. They are the usual element-wise and BLAS operations: copy, the matrix
  product \<open>C := alpha * A * B + beta * C\<close> (row-major, \<open>A\<close> of size \<open>m \<times> k\<close>, \<open>B\<close> of size
  \<open>k \<times> n\<close>), exponentiation, the transposed matrix-vector product
  \<open>y := alpha * A\<^sup>T * x + beta * y\<close> (\<open>A\<close> of size \<open>m \<times> n\<close>) and division. Each writes the
  entries \<open>0 .. n - 1\<close> of its destination.
\<close>

definition write_entries :: "int \<Rightarrow> (int \<Rightarrow> real) \<Rightarrow> buf \<Rightarrow> buf" where
  "write_entries n f dst = fold (\<lambda>i d. d[nat i := f i]) [0..n - 1] dst"

definition caffe_copy :: "int \<Rightarrow> (int \<Rightarrow> real) \<Rightarrow> buf \<Rightarrow> buf" where
  "caffe_copy n src dst = write_entries n src dst"

definition caffe_cpu_gemm ::
  "int \<Rightarrow> int \<Rightarrow> int \<Rightarrow> real \<Rightarrow> buf \<Rightarrow> buf \<Rightarrow> real \<Rightarrow> buf \<Rightarrow> buf" where
  "caffe_cpu_gemm m n k alpha A B beta C =
     write_entries (m * n)
       (\<lambda>i. alpha * sum_list (map (\<lambda>l. A ! nat ((i div n) * k + l) * B ! nat (l * n + i mod n))
                               [0..k - 1])
            + beta * C ! nat i) C"

definition caffe_exp :: "int \<Rightarrow> buf \<Rightarrow> buf \<Rightarrow> buf" where
  "caffe_exp n a y = write_entries n (\<lambda>i. exp (a ! nat i)) y"

definition caffe_cpu_gemv_trans ::
  "int \<Rightarrow> int \<Rightarrow> real \<Rightarrow> buf \<Rightarrow> buf \<Rightarrow> real \<Rightarrow> buf \<Rightarrow> buf" where
  "caffe_cpu_gemv_trans m n alpha A x beta y =
     write_entries n
       (\<lambda>i. alpha * sum_list (map (\<lambda>l. A ! nat (l * n + i) * x ! nat l) [0..m - 1])
            + beta * y ! nat i) y"

definition caffe_div :: "int \<Rightarrow> (int \<Rightarrow> real) \<Rightarrow> (int \<Rightarrow> real) \<Rightarrow> int \<Rightarrow> buf \<Rightarrow> buf" where
  "caffe_div n a b y_off y =
     fold (\<lambda>i d. d[nat (y_off + i) := a i / b i]) [0..n - 1] y"

text \<open>
  \<^verbatim>\<open>SetupUnaryEnergy(bottom_data + data_offset)\<close>: the argument pointer is the pair of the
  input buffer and the offset of the image in it.
\<close>

definition SetupUnaryEnergy :: "buf \<Rightarrow> int \<Rightarrow> DenseCRFLayer \<Rightarrow> DenseCRFLayer" where
  "SetupUnaryEnergy bottom_buf data_offset st =
    (let bottom_data = (\<lambda>i. bottom_buf ! nat (data_offset + i));
         spatial_dim = pad_height_m st * pad_width_m st;
         norm0 = caffe_copy (spatial_dim * M_m st) bottom_data (data (norm_data_m st));
         scale0 = caffe_copy spatial_dim bottom_data (data (scale_m st));
         scale1 = fold (\<lambda>j. fold (\<lambda>k sc. sc[nat k :=
                            max (sc ! nat k) (bottom_data (j * spatial_dim + k))])
                          [0..spatial_dim - 1])
                    [1..M_m st - 1] scale0;
         norm1 = caffe_cpu_gemm (M_m st) spatial_dim 1 (- 1)
                   (data (sum_multiplier_m st)) scale1 1 norm0;
         norm2 = caffe_exp (spatial_dim * M_m st) norm1 norm1;
         scale2 = caffe_cpu_gemv_trans (M_m st) spatial_dim 1 norm2
                    (data (sum_multiplier_m st)) 0 scale1;
         norm3 = fold (\<lambda>j nd. caffe_div spatial_dim
                          (\<lambda>i. nd ! nat (j * spatial_dim + i)) (\<lambda>i. scale2 ! nat i)
                          (j * spatial_dim) nd)
                   [0..M_m st - 1] norm2;
         unary1 = fold (\<lambda>c. fold (\<lambda>h. fold (\<lambda>w u.
                      let in_index = (c * pad_height_m st + h) * pad_width_m st + w;
                          out_index = (h * pad_width_m st + w) * M_m st + c
                      in u[nat out_index := - ln (norm3 ! nat in_index)])
                    [0..W_m st - 1]) [0..H_m st - 1]) [0..M_m st - 1] (unary_m st)
     in st\<lparr>scale_m := (scale_m st)\<lparr>data := scale2\<rparr>,
           norm_data_m := (norm_data_m st)\<lparr>data := norm3\<rparr>,
           unary_m := unary1\<rparr>)"

section \<open>The batch pass\<close>

text \<open>Conversion of a \<^verbatim>\<open>Dtype\<close> value to \<^verbatim>\<open>int\<close> truncates towards zero.\<close>

definition to_int :: "real \<Rightarrow> int" where
  "to_int x = (if 0 \<le> x then \<lfloor>x\<rfloor> else \<lceil>x\<rceil>)"

text \<open>
  The two entries of the dimension record of image \<open>n\<close> are read from \<^verbatim>\<open>bottom[1]\<close> at
  \<^verbatim>\<open>bottom[1]->offset(n)\<close>. The active region is the padded extent when both entries reach
  the padded sizes, and the recorded size otherwise.
\<close>

definition real_img_height :: "blob \<Rightarrow> int \<Rightarrow> int" where
  "real_img_height b1 n = to_int (data b1 ! nat (offset b1 n))"

definition real_img_width :: "blob \<Rightarrow> int \<Rightarrow> int" where
  "real_img_width b1 n = to_int (data b1 ! nat (offset b1 n + 1))"

definition set_active_region :: "int \<Rightarrow> int \<Rightarrow> DenseCRFLayer \<Rightarrow> DenseCRFLayer" where
  "set_active_region rh rw st =
    (if pad_height_m st \<le> rh \<and> pad_width_m st \<le> rw
     then st\<lparr>H_m := pad_height_m st, W_m := pad_width_m st,
             N_m := pad_width_m st * pad_height_m st\<rparr>
     else st\<lparr>H_m := rh, W_m := rw, N_m := rw * rh\<rparr>)"

text \<open>
  Memory faults. The operations above are written with list updates and list lookups,
  which are meaningful only for indices inside the list. For each operation the functions
  below compute the first fault of the C++ code, if there is one: an index outside the
  buffer it is used on, or an array of negative length. \<open>in_buf xs i\<close> says that index \<open>i\<close>
  lies inside \<open>xs\<close>; \<open>block_in_buf xs off n\<close> says that the \<open>n\<close> entries from \<open>off\<close> on do (a
  negative count is a fault of \<^verbatim>\<open>memcpy\<close> and \<^verbatim>\<open>memset\<close>).
\<close>

definition in_buf :: "buf \<Rightarrow> int \<Rightarrow> bool" where
  "in_buf xs i = (0 \<le> i \<and> i < int (length xs))"

definition block_in_buf :: "buf \<Rightarrow> int \<Rightarrow> int \<Rightarrow> bool" where
  "block_in_buf xs off n = (n = 0 \<or> (0 < n \<and> 0 \<le> off \<and> off + n \<le> int (length xs)))"

text \<open>
  \<^verbatim>\<open>SetupUnaryEnergy\<close>: the softmax works on \<open>spatial_dim * M_\<close> entries of the input and of
  \<^verbatim>\<open>norm_data_\<close>, on \<open>spatial_dim\<close> entries of \<^verbatim>\<open>scale_\<close> and on \<open>M_\<close> entries of
  \<^verbatim>\<open>sum_multiplier_\<close>; the crop loop reads \<^verbatim>\<open>norm_data[in_index]\<close> and writes
  \<^verbatim>\<open>unary_[out_index]\<close>.
\<close>

definition SetupUnaryEnergy_fault :: "buf \<Rightarrow> int \<Rightarrow> DenseCRFLayer \<Rightarrow> error option" where
  "SetupUnaryEnergy_fault bottom_buf data_offset st =
    (let spatial_dim = pad_height_m st * pad_width_m st
     in if \<not> (block_in_buf bottom_buf data_offset (spatial_dim * M_m st)
               \<and> block_in_buf (data (norm_data_m st)) 0 (spatial_dim * M_m st)
               \<and> block_in_buf bottom_buf data_offset spatial_dim
               \<and> block_in_buf (data (scale_m st)) 0 spatial_dim
               \<and> block_in_buf (data (sum_multiplier_m st)) 0 (M_m st))
        then Some (BufferOverrun ''SetupUnaryEnergy: softmax'')
        else if \<not> list_all (\<lambda>c. list_all (\<lambda>h. list_all (\<lambda>w.
                      in_buf (data (norm_data_m st))
                        ((c * pad_height_m st + h) * pad_width_m st + w)
                      \<and> in_buf (unary_m st) ((h * pad_width_m st + w) * M_m st + c))
                    [0..W_m st - 1]) [0..H_m st - 1]) [0..M_m st - 1]
        then Some (BufferOverrun ''SetupUnaryEnergy: crop'')
        else None)"

text \<open>
  \<^verbatim>\<open>SetupPairwiseFunctions\<close>: \<^verbatim>\<open>new float[N_*2]\<close> for every spatial kernel, then (with an
  image that is present) \<^verbatim>\<open>new float[N_*5]\<close> for every bilateral kernel and the reads of
  the three planes of \<^verbatim>\<open>im\<close>. A missing \<^verbatim>\<open>bottom[2]\<close> is reported by the operation itself.
  The feature arrays have \<open>N_ = W_ * H_\<close> points when the pass calls the operation, so the
  writes of the feature loops stay inside them.
\<close>

definition SetupPairwiseFunctions_fault :: "blob list \<Rightarrow> DenseCRFLayer \<Rightarrow> error option" where
  "SetupPairwiseFunctions_fault bottom st =
    (if pos_w_m st \<noteq> [] \<and> N_m st * 2 < 0 then Some (BadArrayLength (N_m st * 2))
     else if has_image st \<and> bi_w_m st \<noteq> [] \<and> 2 < length bottom
     then (let im = data (bottom ! 2);
               channel_offset = pad_height_m st * pad_width_m st
           in if N_m st * 5 < 0 then Some (BadArrayLength (N_m st * 5))
              else if \<not> list_all (\<lambda>j. list_all (\<lambda>i.
                          in_buf im (j * pad_width_m st + i)
                          \<and> in_buf im (j * pad_width_m st + i + channel_offset)
                          \<and> in_buf im (j * pad_width_m st + i + 2 * channel_offset))
                        [0..W_m st - 1]) [0..H_m st - 1]
              then Some (BufferOverrun ''SetupPairwiseFunctions: image'')
              else None)
     else None)"

text \<open>
  \<^verbatim>\<open>ComputeMap\<close>: the two \<^verbatim>\<open>memset\<close> calls come before the checks of the shape. After the
  checks, \<^verbatim>\<open>ExpAndNormalize\<close> allocates \<^verbatim>\<open>new float[M_]\<close> and touches, for every pixel
  \<open>i < N_\<close>, entry \<open>i * M_\<close> of its input (\<^verbatim>\<open>b[0]\<close>) and the entries \<open>i * M_ + j\<close> of input and
  output; the unary step of an iteration touches the first \<open>N_ * M_\<close> entries of \<^verbatim>\<open>unary_\<close>
  and \<^verbatim>\<open>next_\<close> (an iteration happens when \<open>0 < max_iter_\<close>; the vector variant touches
  the rest of its last vector of four as well, which is taken to lie in the padding of
  the allocation); the decode loops read
  \<^verbatim>\<open>current_[in_index]\<close> and write both outputs. What the external \<^verbatim>\<open>apply\<close> touches is
  not known. The sizes of the buffers do not change during the inference, so the faults
  are computed on the state before it.
\<close>

definition ComputeMap_memset_fault :: "int \<Rightarrow> blob \<times> blob \<Rightarrow> error option" where
  "ComputeMap_memset_fault n tops =
    (if block_in_buf (data (fst tops)) (offset (fst tops) n)
          (channels (fst tops) * height (fst tops) * width (fst tops))
        \<and> block_in_buf (data (snd tops)) (offset (snd tops) n)
          (height (fst tops) * width (fst tops))
     then None else Some (BufferOverrun ''ComputeMap: memset''))"

definition ExpAndNormalize_in_bounds :: "buf \<Rightarrow> buf \<Rightarrow> int \<Rightarrow> int \<Rightarrow> bool" where
  "ExpAndNormalize_in_bounds out inp N M =
     list_all (\<lambda>i. in_buf inp (i * M)
                \<and> list_all (\<lambda>j. in_buf inp (i * M + j) \<and> in_buf out (i * M + j)) [0..M - 1])
       [0..N - 1]"

definition RunInference_fault :: "DenseCRFLayer \<Rightarrow> error option" where
  "RunInference_fault st =
    (if M_m st < 0 then Some (BadArrayLength (M_m st))
     else if \<not> ExpAndNormalize_in_bounds (current_m st) (unary_m st) (N_m st) (M_m st)
     then Some (BufferOverrun ''StartInference'')
     else if 0 < max_iter_m st
          \<and> \<not> (list_all (\<lambda>i. in_buf (unary_m st) i \<and> in_buf (next_m st) i)
                   [0..N_m st * M_m st - 1]
                \<and> ExpAndNormalize_in_bounds (current_m st) (next_m st) (N_m st) (M_m st))
     then Some (BufferOverrun ''StepInference'')
     else None)"

definition decode_in_bounds :: "int \<Rightarrow> blob \<times> blob \<Rightarrow> DenseCRFLayer \<Rightarrow> bool" where
  "decode_in_bounds n tops st =
     list_all (\<lambda>h. list_all (\<lambda>w.
         in_buf (current_m st) ((h * W_m st + w) * M_m st)
         \<and> in_buf (data (fst tops)) (offset (fst tops) n + (h * width (fst tops) + w))
         \<and> in_buf (data (snd tops)) (offset (snd tops) n + (h * width (fst tops) + w))
         \<and> list_all (\<lambda>c.
               in_buf (current_m st) ((h * W_m st + w) * M_m st + c)
               \<and> in_buf (data (fst tops))
                   (offset (fst tops) n + ((c * height (fst tops) + h) * width (fst tops) + w)))
             [1..M_m st - 1])
       [0..W_m st - 1]) [0..H_m st - 1]"

definition ComputeMap_fault :: "int \<Rightarrow> blob \<times> blob \<Rightarrow> DenseCRFLayer \<Rightarrow> error option" where
  "ComputeMap_fault n tops st =
    (case RunInference_fault st of
       Some e \<Rightarrow> Some e
     | None \<Rightarrow> if decode_in_bounds n tops st then None
               else Some (BufferOverrun ''ComputeMap: decode''))"

text \<open>
  The body of the loop of \<^verbatim>\<open>Forward_cpu\<close> for image \<open>n\<close>: the dimension record is read, the
  active region is set, the capacity is checked, and the four operations run. A fault of
  an operation ends the pass at that operation; the result of \<^verbatim>\<open>ComputeMap\<close> counts only
  if the inference and the decoding in it were free of faults.
\<close>

definition Forward_image ::
  "externals \<Rightarrow> bool \<Rightarrow> blob list \<Rightarrow> int \<Rightarrow> DenseCRFLayer \<times> (blob \<times> blob)
     \<Rightarrow> error + DenseCRFLayer \<times> (blob \<times> blob)" where
  "Forward_image ext sse bottom n s =
    (case s of (st, tops) \<Rightarrow>
     (case bottom_at bottom 0 of
        Inl e \<Rightarrow> Inl e
      | Inr b0 \<Rightarrow>
         (case bottom_at bottom 1 of
            Inl e \<Rightarrow> Inl e
          | Inr b1 \<Rightarrow>
             (if \<not> (in_buf (data b1) (offset b1 n) \<and> in_buf (data b1) (offset b1 n + 1))
              then Inl (BufferOverrun ''Forward_cpu: dimension record'')
              else
               (let data_offset = offset b0 n;
                    st1 = set_active_region (real_img_height b1 n) (real_img_width b1 n) st
                in if \<not> N_m st1 \<le> map_element_m st1
                   then Inl (CheckFailed ''The pre-allocated memory is not enough!'')
                   else
                    (case SetupUnaryEnergy_fault (data b0) data_offset st1 of
                       Some e \<Rightarrow> Inl e
                     | None \<Rightarrow>
                        (let st2 = SetupUnaryEnergy (data b0) data_offset st1
                         in (case SetupPairwiseFunctions_fault bottom st2 of
                               Some e \<Rightarrow> Inl e
                             | None \<Rightarrow>
      (case SetupPairwiseFunctions bottom st2 of
         Inl e \<Rightarrow> Inl e
       | Inr st3 \<Rightarrow>
          (case ComputeMap_memset_fault n tops of
             Some e \<Rightarrow> Inl e
           | None \<Rightarrow>
              (case ComputeMap ext sse n tops st3 of
                 Inl e \<Rightarrow> Inl e
               | Inr r \<Rightarrow>
                  (case ComputeMap_fault n tops st3 of
                     Some e \<Rightarrow> Inl e
                   | None \<Rightarrow> Inr (ClearPairwiseFunctions (fst r), snd r)))))))))))))"

fun Forward_loop ::
  "externals \<Rightarrow> bool \<Rightarrow> blob list \<Rightarrow> int list \<Rightarrow> DenseCRFLayer \<times> (blob \<times> blob)
     \<Rightarrow> error + DenseCRFLayer \<times> (blob \<times> blob)" where
  "Forward_loop ext sse bottom [] s = Inr s"
| "Forward_loop ext sse bottom (n # ns) s =
     (case Forward_image ext sse bottom n s of
        Inl e \<Rightarrow> Inl e
      | Inr s1 \<Rightarrow> Forward_loop ext sse bottom ns s1)"

definition Forward_cpu ::
  "externals \<Rightarrow> bool \<Rightarrow> blob list \<Rightarrow> blob \<times> blob \<Rightarrow> DenseCRFLayer
     \<Rightarrow> error + DenseCRFLayer \<times> (blob \<times> blob)" where
  "Forward_cpu ext sse bottom tops st =
     Forward_loop ext sse bottom [0..num_m st - 1] (st, tops)"

section \<open>Specification-side notions and concrete inputs\<close>

text \<open>The padded unary footprint \<open>Hp \<times> Wp \<times> M\<close> of a score tensor.\<close>

definition footprint :: "blob \<Rightarrow> int" where
  "footprint b = height b * width b * channels b"

text \<open>
  The contract of \<open>ensureCapacity(n)\<close> in the words of the specification: if the capacity
  is below \<open>n\<close>, all four buffers are allocated anew with exactly \<open>n\<close> entries; otherwise
  nothing changes.
\<close>

definition ensured_capacity :: "DenseCRFLayer \<Rightarrow> int \<Rightarrow> DenseCRFLayer \<Rightarrow> bool" where
  "ensured_capacity st n st' =
    (if unary_element_m st < n
     then unary_element_m st' = n \<and> alloc_count st' = Suc (alloc_count st)
        \<and> length (unary_m st') = nat n \<and> length (current_m st') = nat n
        \<and> length (next_m st') = nat n \<and> length (tmp_m st') = nat n
     else unary_element_m st' = unary_element_m st \<and> map_element_m st' = map_element_m st
        \<and> alloc_count st' = alloc_count st
        \<and> unary_m st' = unary_m st \<and> current_m st' = current_m st
        \<and> next_m st' = next_m st \<and> tmp_m st' = tmp_m st)"

definition bilateral_param :: DenseCRFParameter where
  "bilateral_param = \<lparr>p_max_iter = 10, p_pos_w = [3], p_pos_xy_std = [3],
     p_bi_w = [5], p_bi_xy_std = [50], p_bi_rgb_std = [10]\<rparr>"

definition spatial_param :: DenseCRFParameter where
  "spatial_param = \<lparr>p_max_iter = 10, p_pos_w = [3], p_pos_xy_std = [3],
     p_bi_w = [], p_bi_xy_std = [], p_bi_rgb_std = []\<rparr>"

text \<open>Scores and dimension record of one image, without a reference image.\<close>

definition two_inputs :: "blob list" where
  "two_inputs =
    [\<lparr>num = 1, channels = 2, height = 1, width = 1, data = [0, 0]\<rparr>,
     \<lparr>num = 1, channels = 2, height = 1, width = 1, data = [1, 1]\<rparr>]"

text \<open>All-zero scores of shape [1, m, h, w], the dimension record (h, w) and a black image.\<close>

definition zero_inputs :: "int \<Rightarrow> int \<Rightarrow> int \<Rightarrow> blob list" where
  "zero_inputs m h w =
    [\<lparr>num = 1, channels = m, height = h, width = w, data = replicate (nat (m * h * w)) 0\<rparr>,
     \<lparr>num = 1, channels = 2, height = 1, width = 1, data = [of_int h, of_int w]\<rparr>,
     \<lparr>num = 1, channels = 3, height = h, width = w, data = replicate (nat (3 * h * w)) 0\<rparr>]"

text \<open>
  Modelled from the spec: the softmax of the scores of one pixel, in the stable form of
  the specification (subtract the maximum, exponentiate, divide by the sum of the
  exponentials). The exponential is a parameter, since the solver uses \<^verbatim>\<open>fast_exp\<close>.
\<close>

definition softmax :: "(real \<Rightarrow> real) \<Rightarrow> real list \<Rightarrow> real list" where
  "softmax ex xs =
     map (\<lambda>x. ex (x - Max (set xs)) / sum_list (map (\<lambda>y. ex (y - Max (set xs))) xs)) xs"

text \<open>The \<open>M\<close> scaled entries of pixel \<open>i\<close> in a pixel-major buffer.\<close>

definition pixel_values :: "int \<Rightarrow> buf \<Rightarrow> real \<Rightarrow> int \<Rightarrow> real list" where
  "pixel_values M inp scale i = map (\<lambda>j. scale * inp ! nat (i * M + j)) [0..M - 1]"

text \<open>
  What \<^verbatim>\<open>ExpAndNormalize\<close> computes for pixel \<open>i\<close>: the running maximum, the array \<^verbatim>\<open>V\<close>
  before the division, and entry \<open>j\<close> after it.
\<close>

definition pixel_max :: "int \<Rightarrow> buf \<Rightarrow> real \<Rightarrow> int \<Rightarrow> real" where
  "pixel_max M inp scale i = fold (\<lambda>j mx. if mx < scale * inp ! nat (i * M + j) then scale * inp ! nat (i * M + j) else mx)
                [1..M - 1] (scale * inp ! nat (i * M + 0))"

definition pixel_exps :: "externals \<Rightarrow> int \<Rightarrow> buf \<Rightarrow> real \<Rightarrow> int \<Rightarrow> real list" where
  "pixel_exps ext M inp scale i = map (\<lambda>j. fast_exp ext (scale * inp ! nat (i * M + j) - pixel_max M inp scale i)) [0..M - 1]"

definition normalized :: "externals \<Rightarrow> int \<Rightarrow> buf \<Rightarrow> real \<Rightarrow> int \<Rightarrow> int \<Rightarrow> real" where
  "normalized ext M inp scale i j =
     fast_exp ext (scale * inp ! nat (i * M + j) - pixel_max M inp scale i)
       / sum_list (pixel_exps ext M inp scale i)"

text \<open>
  A valid distribution at pixel \<open>i\<close> of a pixel-major buffer: the \<open>M\<close> entries are
  non-negative and sum to one. \<open>valid_marginals\<close> asks this of \<^verbatim>\<open>current_\<close> for every active
  pixel.
\<close>

definition distribution_at :: "buf \<Rightarrow> int \<Rightarrow> int \<Rightarrow> bool" where
  "distribution_at cur M i =
     (list_all (\<lambda>j. 0 \<le> cur ! nat (i * M + j)) [0..M - 1]
      \<and> sum_list (map (\<lambda>j. cur ! nat (i * M + j)) [0..M - 1]) = 1)"

definition valid_marginals :: "DenseCRFLayer \<Rightarrow> bool" where
  "valid_marginals st = list_all (distribution_at (current_m st) (M_m st)) [0..N_m st - 1]"

text \<open>
  The assumption on the external \<^verbatim>\<open>apply\<close> under which the two build variants can be
  compared: of the accumulator it reads only the first \<open>n\<close> entries (the active ones).
  \<open>active_view\<close> forgets the entries of \<^verbatim>\<open>next_\<close> beyond the active ones.
\<close>

definition reads_active_prefix :: "externals \<Rightarrow> nat \<Rightarrow> bool" where
  "reads_active_prefix ext n =
    (\<forall>p nx nx' cur tmp m. take n nx = take n nx' \<longrightarrow>
       take n (fst (potts_apply ext p nx cur tmp m)) = take n (fst (potts_apply ext p nx' cur tmp m))
       \<and> snd (potts_apply ext p nx cur tmp m) = snd (potts_apply ext p nx' cur tmp m))"

definition active_view :: "DenseCRFLayer \<Rightarrow> DenseCRFLayer" where
  "active_view st = st\<lparr>next_m := take (nat (N_m st * M_m st)) (next_m st)\<rparr>"

text \<open>
  Concrete externals: the exact exponential, and a potential whose message is the
  weighted current marginal (no filtering).
\<close>

definition exact_ext :: externals where
  "exact_ext = \<lparr>fast_exp = exp,
     potts_apply = (\<lambda>p nx cur tmp m. (map2 (\<lambda>a b. a + pp_w p * b) nx cur, cur))\<rparr>"

definition one_pixel_state :: DenseCRFLayer where
  "one_pixel_state = new_layer\<lparr>max_iter_m := 0, M_m := 2, H_m := 1, W_m := 1, N_m := 1,
     pad_height_m := 1, pad_width_m := 1, unary_element_m := 2, map_element_m := 1,
     unary_m := [0, 0], current_m := [0, 0], next_m := [0, 0], tmp_m := [0, 0]\<rparr>"

definition two_step_state :: DenseCRFLayer where
  "two_step_state = one_pixel_state\<lparr>max_iter_m := 2, unary_m := [1, 3], next_m := [7, 7],
     pairwise_m := [\<lparr>pp_features = [0, 0], pp_D = 2, pp_N = 1, pp_w = 3\<rparr>]\<rparr>"

text \<open>
  The label that the channel scan of the decoder yields for the values \<open>f 0, \<dots>, f (M - 1)\<close>,
  and the two nested pixel loops of \<^verbatim>\<open>ComputeMap\<close> as one function.
\<close>

definition argmax_scan :: "(int \<Rightarrow> real) \<Rightarrow> int \<Rightarrow> int" where
  "argmax_scan f M =
     snd (fold (\<lambda>c (mx, imx). if mx < f c then (f c, c) else (mx, imx)) [1..M - 1] (f 0, 0))"

definition decode_loops ::
  "DenseCRFLayer \<Rightarrow> int \<Rightarrow> int \<Rightarrow> int \<Rightarrow> int \<Rightarrow> buf \<times> buf \<Rightarrow> buf \<times> buf" where
  "decode_loops st o_inf o_map th tw =
     fold (\<lambda>h. fold (ComputeMap_pixel st o_inf o_map th tw h) [0..W_m st - 1]) [0..H_m st - 1]"

text \<open>
  The output tensors as the reshape leaves them: shapes [num, M, Hp, Wp] and
  [num, 1, Hp, Wp], storage for every entry, no negative dimension.
\<close>

definition tops_shaped :: "DenseCRFLayer \<Rightarrow> blob \<times> blob \<Rightarrow> bool" where
  "tops_shaped st tops =
    (num (fst tops) = num_m st \<and> channels (fst tops) = M_m st
     \<and> height (fst tops) = pad_height_m st \<and> width (fst tops) = pad_width_m st
     \<and> num (snd tops) = num_m st \<and> channels (snd tops) = 1
     \<and> height (snd tops) = pad_height_m st \<and> width (snd tops) = pad_width_m st
     \<and> count (fst tops) \<le> int (length (data (fst tops)))
     \<and> count (snd tops) \<le> int (length (data (snd tops)))
     \<and> 0 \<le> M_m st \<and> 0 \<le> pad_height_m st \<and> 0 \<le> pad_width_m st)"

text \<open>
  Scores of shape [1, 2, 2, 3] with the dimension record (1, 2) and a black image; and
  the engine after setup and reshapes, as values for closed statements.
\<close>

definition crop_inputs :: "blob list" where
  "crop_inputs =
    [\<lparr>num = 1, channels = 2, height = 2, width = 3,
       data = [0, 1, 0, 0, 0, 0,  0, 0, 0, 0, 0, 0]\<rparr>,
     \<lparr>num = 1, channels = 2, height = 1, width = 1, data = [1, 2]\<rparr>,
     \<lparr>num = 1, channels = 3, height = 2, width = 3, data = replicate 18 0\<rparr>]"

definition setup_then_reshape ::
  "DenseCRFParameter \<Rightarrow> blob list \<Rightarrow> error + DenseCRFLayer \<times> (blob \<times> blob)" where
  "setup_then_reshape P bottom =
    (case LayerSetUp P bottom new_layer of
       Inl e \<Rightarrow> Inl e
     | Inr st \<Rightarrow> Reshape bottom (empty_blob, empty_blob) st)"

definition then_reshape ::
  "blob list \<Rightarrow> error + DenseCRFLayer \<times> (blob \<times> blob)
     \<Rightarrow> error + DenseCRFLayer \<times> (blob \<times> blob)" where
  "then_reshape bottom r =
    (case r of Inl e \<Rightarrow> Inl e | Inr s \<Rightarrow> Reshape bottom (snd s) (fst s))"

definition regrown_run :: "error + DenseCRFLayer \<times> (blob \<times> blob)" where
  "regrown_run =
     then_reshape (zero_inputs 1 4 4) (setup_then_reshape bilateral_param (zero_inputs 4 2 2))"

text \<open>
  The fatal abort of the capacity check of \<^verbatim>\<open>Forward_cpu\<close>, as opposed to a fault.
\<close>

definition capacity_abort :: "error + 'a \<Rightarrow> bool" where
  "capacity_abort r = (r = Inl (CheckFailed ''The pre-allocated memory is not enough!''))"

text \<open>
  What the pass over an image relies on. The four working buffers have the size recorded
  as capacity (true after setup and kept by every operation). The input tensors hold
  their entries, the score tensor has at least one class, the dimension tensor has at
  least two entries per image and an image tensor has three channels. The external
  \<^verbatim>\<open>apply\<close> works in place on the arrays it is handed: given three buffers of one size it
  returns accumulator and scratch of that size.
\<close>

definition buffers_allocated :: "DenseCRFLayer \<Rightarrow> bool" where
  "buffers_allocated st =
    (0 \<le> unary_element_m st
     \<and> length (unary_m st) = nat (unary_element_m st)
     \<and> length (current_m st) = nat (unary_element_m st)
     \<and> length (next_m st) = nat (unary_element_m st)
     \<and> length (tmp_m st) = nat (unary_element_m st))"

definition stored :: "blob \<Rightarrow> bool" where
  "stored b = (0 \<le> num b \<and> 0 \<le> channels b \<and> 0 \<le> height b \<and> 0 \<le> width b
     \<and> count b \<le> int (length (data b)))"

definition inputs_stored :: "blob list \<Rightarrow> bool" where
  "inputs_stored bottom =
    (list_all stored bottom
     \<and> 0 < channels (bottom ! 0)
     \<and> 2 \<le> channels (bottom ! 1) * height (bottom ! 1) * width (bottom ! 1)
     \<and> list_all (\<lambda>b. channels b = 3) (drop 2 bottom))"



text \<open>
  All-zero scores of shape [1, m, h, w] with the dimension record (rh, rw) and a black
  image.
\<close>

definition framed_inputs :: "int \<Rightarrow> int \<Rightarrow> int \<Rightarrow> int \<Rightarrow> int \<Rightarrow> blob list" where
  "framed_inputs m h w rh rw =
    [\<lparr>num = 1, channels = m, height = h, width = w, data = replicate (nat (m * h * w)) 0\<rparr>,
     \<lparr>num = 1, channels = 2, height = 1, width = 1, data = [of_int rh, of_int rw]\<rparr>,
     \<lparr>num = 1, channels = 3, height = h, width = w, data = replicate (nat (3 * h * w)) 0\<rparr>]"

text \<open>
  The scores of all classes at padded position \<open>(h, w)\<close> of image \<open>n\<close> of a score tensor,
  and the unary energy the specification asks for: the negative natural logarithm of the
  softmax-normalized probability of class \<open>c\<close> there.
\<close>

definition pixel_scores :: "blob \<Rightarrow> int \<Rightarrow> int \<Rightarrow> int \<Rightarrow> real list" where
  "pixel_scores b0 n h w =
     map (\<lambda>c. data b0 ! nat (offset b0 n + ((c * height b0 + h) * width b0 + w)))
       [0..channels b0 - 1]"

definition unary_energy :: "blob \<Rightarrow> int \<Rightarrow> int \<Rightarrow> int \<Rightarrow> int \<Rightarrow> real" where
  "unary_energy b0 n h w c = - ln (softmax exp (pixel_scores b0 n h w) ! nat c)"

text \<open>
  What \<^verbatim>\<open>SetupUnaryEnergy\<close> relies on, as the reshape provides it: at least one class, the
  multiplier of ones, and room in the scratch tensors and in \<^verbatim>\<open>unary_\<close> for the padded
  footprint.
\<close>

definition unary_ready :: "DenseCRFLayer \<Rightarrow> bool" where
  "unary_ready st =
    (0 < M_m st \<and> 0 \<le> pad_height_m st \<and> 0 \<le> pad_width_m st
     \<and> M_m st \<le> int (length (data (sum_multiplier_m st)))
     \<and> list_all (\<lambda>j. data (sum_multiplier_m st) ! nat j = 1) [0..M_m st - 1]
     \<and> pad_height_m st * pad_width_m st \<le> int (length (data (scale_m st)))
     \<and> M_m st * (pad_height_m st * pad_width_m st) \<le> int (length (data (norm_data_m st)))
     \<and> M_m st * (pad_height_m st * pad_width_m st) \<le> int (length (unary_m st)))"

text \<open>
  One image with 2 classes, padded to 2 x 3, with the dimension record (2, 2): the active
  region is narrower than the padded extent. Class 0 has score 1 at position (1, 1), all
  other scores are 0. \<open>narrow_state\<close> is the engine after setup, reshape and the unary
  energy of this image.
\<close>

definition narrow_inputs :: "blob list" where
  "narrow_inputs =
    [\<lparr>num = 1, channels = 2, height = 2, width = 3,
       data = [0, 0, 0, 0, 1, 0,  0, 0, 0, 0, 0, 0]\<rparr>,
     \<lparr>num = 1, channels = 2, height = 1, width = 1, data = [2, 2]\<rparr>,
     \<lparr>num = 1, channels = 3, height = 2, width = 3, data = replicate 18 0\<rparr>]"

definition narrow_state :: DenseCRFLayer where
  "narrow_state =
     SetupUnaryEnergy (data (narrow_inputs ! 0)) (offset (narrow_inputs ! 0) 0)
       (set_active_region (real_img_height (narrow_inputs ! 1) 0)
          (real_img_width (narrow_inputs ! 1) 0)
          (fst (projr (setup_then_reshape bilateral_param narrow_inputs))))"

section \<open>Setup and the reference image\<close>

lemma pairwise_fold_length:
  "length (pairwise_m (fold (\<lambda>k s. s\<lparr>pairwise_m := pairwise_m s @ [f s k]\<rparr>) ks s))
     = length (pairwise_m s) + length ks"
  by (induction ks arbitrary: s) auto

lemma pairwise_fold_has_image:
  "has_image (fold (\<lambda>k s. s\<lparr>pairwise_m := pairwise_m s @ [f s k]\<rparr>) ks s) = has_image s"
  by (induction ks arbitrary: s) auto

lemma pairwise_fold_D:
  assumes "\<And>s k. pp_D (f s k) = 2"
  shows "(\<forall>p \<in> set (pairwise_m s). pp_D p = 2) \<Longrightarrow>
   (\<forall>p \<in> set (pairwise_m (fold (\<lambda>k s. s\<lparr>pairwise_m := pairwise_m s @ [f s k]\<rparr>) ks s)).
      pp_D p = 2)"
proof (induction ks arbitrary: s)
  case Nil
  then show ?case by simp
next
  case (Cons k ks)
  have "\<forall>p \<in> set (pairwise_m (s\<lparr>pairwise_m := pairwise_m s @ [f s k]\<rparr>)). pp_D p = 2"
    using Cons.prems assms by auto
  from Cons.IH [OF this] show ?case by simp
qed

lemma SetupPairwise_no_image:
  assumes "\<not> has_image st"
  shows "\<exists>st'. SetupPairwiseFunctions bottom st = Inr st'
    \<and> length (pairwise_m st') = length (pos_w_m st)
    \<and> (\<forall>p \<in> set (pairwise_m st'). pp_D p = 2)"
proof -
  let ?f = "\<lambda>s k. \<lparr>pp_features = gaussian_features s k, pp_D = 2, pp_N = N_m s,
                    pp_w = pos_w_m s ! k\<rparr>"
  let ?st1 = "fold (\<lambda>k s. s\<lparr>pairwise_m := pairwise_m s @ [?f s k]\<rparr>)
                [0..<length (pos_w_m st)] (ClearPairwiseFunctions st)"
  have h: "\<not> has_image ?st1"
    using assms by (simp add: pairwise_fold_has_image ClearPairwiseFunctions_def)
  have l: "length (pairwise_m ?st1) = length (pos_w_m st)"
    by (simp add: pairwise_fold_length ClearPairwiseFunctions_def)
  have d: "\<forall>p \<in> set (pairwise_m ?st1). pp_D p = 2"
    by (rule pairwise_fold_D) (simp_all add: ClearPairwiseFunctions_def)
  have "SetupPairwiseFunctions bottom st = Inr ?st1"
    using h by (simp add: SetupPairwiseFunctions_def Let_def ClearPairwiseFunctions_def)
  with l d show ?thesis by simp
qed

text \<open>
  C2, as the specification states it, fails: with one bilateral kernel configured and only
  the two required inputs, \<^verbatim>\<open>LayerSetUp\<close> does not abort.
\<close>

theorem C2_bilateral_without_image_accepted:
  "p_bi_w bilateral_param \<noteq> [] \<and> length two_inputs = 2
   \<and> \<not> aborted (LayerSetUp bilateral_param two_inputs new_layer)"
  by (simp add: bilateral_param_def two_inputs_def LayerSetUp_def new_layer_def aborted_def
      Let_def)

text \<open>
  C2, amended: for a configuration whose list lengths agree, setup with exactly two inputs
  succeeds whatever bilateral kernels are configured, and records that there is no image;
  in a state without image the kernel builder constructs the spatial potentials only
  (one per spatial weight, all of feature dimension 2). What setup rejects is the converse
  mismatch: a third input together with an empty bilateral weight list.
\<close>

theorem C2_setup_image_gate:
  assumes "length (p_pos_w P) = length (p_pos_xy_std P)"
    and "length (p_bi_w P) = length (p_bi_xy_std P)"
    and "length (p_bi_w P) = length (p_bi_rgb_std P)"
  shows "(length bottom = 2 \<longrightarrow>
            (\<exists>st. LayerSetUp P bottom new_layer = Inr st \<and> \<not> has_image st
                \<and> bi_w_m st = p_bi_w P \<and> pos_w_m st = p_pos_w P))
       \<and> (\<forall>st. \<not> has_image st \<longrightarrow>
            (\<exists>st'. SetupPairwiseFunctions bottom st = Inr st'
                \<and> length (pairwise_m st') = length (pos_w_m st)
                \<and> (\<forall>p \<in> set (pairwise_m st'). pp_D p = 2)))
       \<and> (2 < length bottom \<and> p_bi_w P = [] \<longrightarrow> aborted (LayerSetUp P bottom new_layer))"
proof (intro conjI impI allI)
  assume "length bottom = 2"
  with assms show "\<exists>st. LayerSetUp P bottom new_layer = Inr st \<and> \<not> has_image st
      \<and> bi_w_m st = p_bi_w P \<and> pos_w_m st = p_pos_w P"
    by (simp add: LayerSetUp_def new_layer_def Let_def)
next
  fix st :: DenseCRFLayer
  assume "\<not> has_image st"
  then show "\<exists>st'. SetupPairwiseFunctions bottom st = Inr st'
      \<and> length (pairwise_m st') = length (pos_w_m st)
      \<and> (\<forall>p \<in> set (pairwise_m st'). pp_D p = 2)"
    by (rule SetupPairwise_no_image)
next
  assume "2 < length bottom \<and> p_bi_w P = []"
  with assms show "aborted (LayerSetUp P bottom new_layer)"
    by (simp add: LayerSetUp_def new_layer_def Let_def aborted_def)
qed

theorem C2_setup_image_gate_witness:
  "(\<exists>st. LayerSetUp bilateral_param two_inputs new_layer = Inr st \<and> \<not> has_image st
       \<and> bi_w_m st = [5] \<and> pos_w_m st = [3])
   \<and> (\<exists>st'. SetupPairwiseFunctions two_inputs new_layer = Inr st'
       \<and> length (pairwise_m st') = 0)"
proof -
  have l: "length (p_pos_w bilateral_param) = length (p_pos_xy_std bilateral_param)"
    "length (p_bi_w bilateral_param) = length (p_bi_xy_std bilateral_param)"
    "length (p_bi_w bilateral_param) = length (p_bi_rgb_std bilateral_param)"
    by (simp_all add: bilateral_param_def)
  have n: "length two_inputs = 2" "\<not> has_image new_layer" "pos_w_m new_layer = []"
    by (simp_all add: two_inputs_def new_layer_def)
  from C2_setup_image_gate [OF l, of two_inputs] n
  have "(\<exists>st. LayerSetUp bilateral_param two_inputs new_layer = Inr st \<and> \<not> has_image st
            \<and> bi_w_m st = p_bi_w bilateral_param \<and> pos_w_m st = p_pos_w bilateral_param)"
    and "\<exists>st'. SetupPairwiseFunctions two_inputs new_layer = Inr st'
            \<and> length (pairwise_m st') = length (pos_w_m new_layer)"
    by blast+
  then show ?thesis using n by (simp add: bilateral_param_def)
qed

text \<open>
  C4 fails on the code: \<^verbatim>\<open>Reshape\<close> compares \<^verbatim>\<open>bottom[1]->num()\<close> with \<^verbatim>\<open>bottom[2]->num()\<close>
  outside the \<^verbatim>\<open>has_image\<close> guard. With no bilateral kernel configured and exactly two
  inputs, setup succeeds and the reshape reads the third input, which does not exist.
\<close>

theorem C4_reshape_reads_third_input:
  "p_bi_w spatial_param = [] \<and> length two_inputs = 2
   \<and> (\<exists>st. LayerSetUp spatial_param two_inputs new_layer = Inr st
          \<and> Reshape two_inputs (empty_blob, empty_blob) st = Inl (BottomOutOfRange 2))"
  by (simp add: spatial_param_def two_inputs_def LayerSetUp_def new_layer_def Let_def
      Reshape_def bottom_at_def)

section \<open>Grow-only buffers\<close>

lemma Reshape_ensured:
  assumes "Reshape bottom tops st = Inr (st', tops')"
  shows "ensured_capacity st (footprint (bottom ! 0)) st'"
  using assms
  by (auto simp: Reshape_def bottom_at_def Let_def ensured_capacity_def footprint_def
        AllocateAllData_def DeAllocateAllData_def allocate_def
      split: sum.splits if_splits)

lemma ensured_mono: "ensured_capacity st n st' \<Longrightarrow> unary_element_m st \<le> unary_element_m st'"
  by (auto simp: ensured_capacity_def split: if_splits)

text \<open>
  C8: every successful reshape meets the grow-only contract for the padded footprint of
  its score tensor, so the capacity never shrinks, the four buffers are allocated anew
  (all four, with exactly the footprint as length) only when the footprint strictly
  exceeds the stored capacity, and capacity and buffers are unchanged otherwise. For three
  reshapes in a row with footprints S1, S2, S3, where S1 is at least the capacity before
  and S2 < S1 < S3, the pass over S2 allocates nothing and the pass over S3 allocates
  exactly once.
\<close>

theorem C8_capacity_grow_only:
  assumes r1: "Reshape bottom1 tops0 st0 = Inr (st1, tops1)"
    and r2: "Reshape bottom2 tops1 st1 = Inr (st2, tops2)"
    and r3: "Reshape bottom3 tops2 st2 = Inr (st3, tops3)"
  shows "ensured_capacity st0 (footprint (bottom1 ! 0)) st1
     \<and> ensured_capacity st1 (footprint (bottom2 ! 0)) st2
     \<and> ensured_capacity st2 (footprint (bottom3 ! 0)) st3
     \<and> unary_element_m st0 \<le> unary_element_m st1
     \<and> unary_element_m st1 \<le> unary_element_m st2
     \<and> unary_element_m st2 \<le> unary_element_m st3
     \<and> (unary_element_m st0 \<le> footprint (bottom1 ! 0)
          \<and> footprint (bottom2 ! 0) < footprint (bottom1 ! 0)
          \<and> footprint (bottom1 ! 0) < footprint (bottom3 ! 0)
        \<longrightarrow> alloc_count st2 = alloc_count st1 \<and> alloc_count st3 = Suc (alloc_count st1)
          \<and> unary_element_m st3 = footprint (bottom3 ! 0))"
proof -
  note e1 = Reshape_ensured [OF r1] and e2 = Reshape_ensured [OF r2]
    and e3 = Reshape_ensured [OF r3]
  have m: "unary_element_m st0 \<le> unary_element_m st1"
      "unary_element_m st1 \<le> unary_element_m st2"
      "unary_element_m st2 \<le> unary_element_m st3"
    using e1 e2 e3 by (auto dest: ensured_mono)
  have s: "alloc_count st2 = alloc_count st1 \<and> alloc_count st3 = Suc (alloc_count st1)
          \<and> unary_element_m st3 = footprint (bottom3 ! 0)"
    if "unary_element_m st0 \<le> footprint (bottom1 ! 0)"
      "footprint (bottom2 ! 0) < footprint (bottom1 ! 0)"
      "footprint (bottom1 ! 0) < footprint (bottom3 ! 0)"
  proof -
    have c1: "unary_element_m st1 = footprint (bottom1 ! 0)"
      using e1 that(1) by (auto simp: ensured_capacity_def split: if_splits)
    have c2: "unary_element_m st2 = unary_element_m st1 \<and> alloc_count st2 = alloc_count st1"
      using e2 that(2) c1 by (auto simp: ensured_capacity_def split: if_splits)
    show ?thesis
      using e3 that(3) c1 c2 by (auto simp: ensured_capacity_def split: if_splits)
  qed
  show ?thesis using e1 e2 e3 m s by blast
qed

theorem C8_capacity_grow_only_witness:
  "\<exists>st0 st1 tops1 st2 tops2 st3 tops3.
     LayerSetUp bilateral_param (zero_inputs 2 2 2) new_layer = Inr st0
   \<and> Reshape (zero_inputs 2 2 2) (empty_blob, empty_blob) st0 = Inr (st1, tops1)
   \<and> Reshape (zero_inputs 2 1 2) tops1 st1 = Inr (st2, tops2)
   \<and> Reshape (zero_inputs 2 2 3) tops2 st2 = Inr (st3, tops3)
   \<and> unary_element_m st0 = 0 \<and> unary_element_m st1 = 8 \<and> unary_element_m st2 = 8
   \<and> unary_element_m st3 = 12
   \<and> alloc_count st2 = alloc_count st1 \<and> alloc_count st3 = Suc (alloc_count st1)"
proof -
  obtain st0 where s0: "LayerSetUp bilateral_param (zero_inputs 2 2 2) new_layer = Inr st0"
    by (simp add: LayerSetUp_def bilateral_param_def zero_inputs_def new_layer_def Let_def)
  then have f0: "has_image st0" "unary_element_m st0 = 0"
    by (auto simp: LayerSetUp_def bilateral_param_def zero_inputs_def new_layer_def Let_def)
  obtain st1 tops1 where
    r1: "Reshape (zero_inputs 2 2 2) (empty_blob, empty_blob) st0 = Inr (st1, tops1)"
    using f0 by (simp add: Reshape_def bottom_at_def zero_inputs_def Let_def)
  then have f1: "has_image st1"
    using f0 by (auto simp: Reshape_def bottom_at_def zero_inputs_def Let_def
        AllocateAllData_def DeAllocateAllData_def split: if_splits)
  obtain st2 tops2 where r2: "Reshape (zero_inputs 2 1 2) tops1 st1 = Inr (st2, tops2)"
    using f1 by (simp add: Reshape_def bottom_at_def zero_inputs_def Let_def)
  then have f2: "has_image st2"
    using f1 by (auto simp: Reshape_def bottom_at_def zero_inputs_def Let_def
        AllocateAllData_def DeAllocateAllData_def split: if_splits)
  obtain st3 tops3 where r3: "Reshape (zero_inputs 2 2 3) tops2 st2 = Inr (st3, tops3)"
    using f2 by (simp add: Reshape_def bottom_at_def zero_inputs_def Let_def)
  have fp: "footprint (zero_inputs 2 2 2 ! 0) = 8" "footprint (zero_inputs 2 1 2 ! 0) = 4"
    "footprint (zero_inputs 2 2 3 ! 0) = 12"
    by (simp_all add: footprint_def zero_inputs_def)
  from C8_capacity_grow_only [OF r1 r2 r3] f0 fp
  have "unary_element_m st1 = 8 \<and> unary_element_m st2 = 8 \<and> unary_element_m st3 = 12
     \<and> alloc_count st2 = alloc_count st1 \<and> alloc_count st3 = Suc (alloc_count st1)"
    by (simp add: ensured_capacity_def)
  with s0 r1 r2 r3 f0 show ?thesis by blast
qed

section \<open>Loops over buffers\<close>

lemma fold_length_inv:
  assumes "\<And>i a. length (F i a) = length a"
  shows "length (fold F js a) = length a"
  by (induction js arbitrary: a) (simp_all add: assms)

lemma fold_nth_outside:
  assumes "\<And>k a. k \<in> set js \<Longrightarrow> F k a ! p = a ! p"
  shows "fold F js a ! p = a ! p"
  using assms by (induction js arbitrary: a) simp_all

lemma fold_nth_inside:
  assumes len: "\<And>k a. length (F k a) = length a"
    and wr: "\<And>a. p < length a \<Longrightarrow> F i a ! p = v"
    and fr: "\<And>k a. k \<in> set js \<Longrightarrow> k \<noteq> i \<Longrightarrow> F k a ! p = a ! p"
    and "i \<in> set js" and "p < length a"
  shows "fold F js a ! p = v"
  using assms(4,5) fr
proof (induction js arbitrary: a)
  case Nil
  then show ?case by simp
next
  case (Cons x xs)
  show ?case
  proof (cases "i \<in> set xs")
    case True
    have "fold F xs (F x a) ! p = v"
      by (rule Cons.IH) (use True Cons.prems len in auto)
    then show ?thesis by simp
  next
    case False
    with Cons.prems have xi: "x = i" by simp
    have "fold F xs (F x a) ! p = F x a ! p"
      by (rule fold_nth_outside) (use False Cons.prems(3) in auto)
    also have "\<dots> = v" using xi wr Cons.prems(2) by simp
    finally show ?thesis by simp
  qed
qed

lemma fold_id: "(\<And>k a. k \<in> set js \<Longrightarrow> F k a = a) \<Longrightarrow> fold F js a = a"
  by (induction js arbitrary: a) simp_all

lemma fold_max_ge_init: "m0 \<le> fold (\<lambda>j mx. if mx < f j then f j else mx) js (m0::real)"
proof (induction js arbitrary: m0)
  case Nil
  then show ?case by simp
next
  case (Cons x xs)
  have "(if m0 < f x then f x else m0) \<le> fold (\<lambda>j mx. if mx < f j then f j else mx) xs (if m0 < f x then f x else m0)"
    by (rule Cons.IH)
  then show ?case by (simp split: if_splits)
qed

lemma fold_max_ge_elem:
  "j \<in> set js \<Longrightarrow> f j \<le> fold (\<lambda>j mx. if mx < f j then f j else mx) js (m0::real)"
proof (induction js arbitrary: m0)
  case Nil
  then show ?case by simp
next
  case (Cons x xs)
  show ?case
  proof (cases "j \<in> set xs")
    case True
    then show ?thesis using Cons.IH by simp
  next
    case False
    with Cons.prems have "j = x" by simp
    moreover have "(if m0 < f x then f x else m0) \<le> fold (\<lambda>j mx. if mx < f j then f j else mx) xs (if m0 < f x then f x else m0)"
      by (rule fold_max_ge_init)
    ultimately show ?thesis by (simp split: if_splits)
  qed
qed

lemma fold_max_attained:
  "fold (\<lambda>j mx. if mx < f j then f j else mx) js (m0::real) = m0
   \<or> (\<exists>j \<in> set js. fold (\<lambda>j mx. if mx < f j then f j else mx) js m0 = f j)"
proof (induction js arbitrary: m0)
  case Nil
  then show ?case by simp
next
  case (Cons x xs)
  from Cons.IH [of "if m0 < f x then f x else m0"] show ?case
    by (auto split: if_splits)
qed

lemma fold_add_sum_list: "fold (\<lambda>v t. t + v) V (a::real) = a + sum_list V"
  by (induction V arbitrary: a) simp_all

lemma sum_list_div: "sum_list (map (\<lambda>v. v / (t::real)) V) = sum_list V / t"
  by (induction V) (simp_all add: add_divide_distrib)

lemma upto_nth: "0 \<le> j \<Longrightarrow> j \<le> m \<Longrightarrow> [0..m] ! nat j = j"
  by simp

lemma upto_split_first: "0 < M \<Longrightarrow> [0..M - 1] = 0 # [1..M - 1]"
  by (simp add: upto_rec1)

lemma member_le_sum_list_real:
  "(\<forall>x \<in> set xs. 0 \<le> (x::real)) \<Longrightarrow> y \<in> set xs \<Longrightarrow> y \<le> sum_list xs"
proof (induction xs)
  case Nil
  then show ?case by simp
next
  case (Cons a xs)
  have "0 \<le> sum_list xs" using Cons.prems(1) by (simp add: sum_list_nonneg)
  then show ?case using Cons by auto
qed

lemma block_index_unique:
  assumes "0 \<le> i" "0 \<le> k" "0 \<le> j" "j < M" "0 \<le> l" "l < (M::int)" "i * M + j = k * M + l"
  shows "i = k \<and> j = l"
proof -
  have a: "(i * M + j) div M = i" using assms(3,4) by simp
  have b: "(k * M + l) div M = k" using assms(5,6) by simp
  from assms(7) have "(i * M + j) div M = (k * M + l) div M" by (rule arg_cong)
  then have ik: "i = k" unfolding a b .
  from assms(7) show ?thesis unfolding ik by simp
qed

lemma active_index_bound:
  assumes "0 \<le> i" "i < N" "0 \<le> j" "j < M" "N * M \<le> int n"
  shows "nat (i * M + j) < n"
proof -
  have "i * M \<le> (N - 1) * M" using assms by (intro mult_right_mono) simp_all
  then have "i * M + j < N * M" using assms by (simp add: algebra_simps)
  moreover have "0 \<le> i * M" using assms by simp
  ultimately show ?thesis using assms by linarith
qed

section \<open>Normalization\<close>

lemma ExpAndNormalize_pixel_alt:
  "ExpAndNormalize_pixel ext M inp scale i out =
     fold (\<lambda>j a. a[nat (i * M + j) := map (\<lambda>v. v / sum_list (pixel_exps ext M inp scale i)) (pixel_exps ext M inp scale i) ! nat j]) [0..M - 1] out"
  by (simp add: ExpAndNormalize_pixel_def Let_def pixel_exps_def pixel_max_def fold_add_sum_list)

lemma ExpAndNormalize_pixel_length [simp]:
  "length (ExpAndNormalize_pixel ext M inp scale i out) = length out"
  unfolding ExpAndNormalize_pixel_alt by (rule fold_length_inv) simp

lemma ExpAndNormalize_length [simp]:
  "length (ExpAndNormalize ext st out inp scale) = length out"
  unfolding ExpAndNormalize_def by (rule fold_length_inv) simp

lemma ExpAndNormalize_pixel_outside:
  assumes "\<not> (\<exists>j. 0 \<le> j \<and> j < M \<and> p = nat (i * M + j))"
  shows "ExpAndNormalize_pixel ext M inp scale i out ! p = out ! p"
  unfolding ExpAndNormalize_pixel_alt
  by (rule fold_nth_outside) (use assms in \<open>auto simp: nth_list_update\<close>)

lemma ExpAndNormalize_pixel_inside:
  assumes "0 \<le> i" "0 \<le> j" "j < M" "nat (i * M + j) < length out"
  shows "ExpAndNormalize_pixel ext M inp scale i out ! nat (i * M + j) = normalized ext M inp scale i j"
  unfolding ExpAndNormalize_pixel_alt
proof (rule fold_nth_inside [where i = j])
  show "j \<in> set [0..M - 1]" using assms by simp
  show "nat (i * M + j) < length out" by fact
next
  fix a :: buf assume "nat (i * M + j) < length a"
  then show "a[nat (i * M + j) := map (\<lambda>v. v / sum_list (pixel_exps ext M inp scale i)) (pixel_exps ext M inp scale i) ! nat j] ! nat (i * M + j) = normalized ext M inp scale i j"
    using assms by (simp add: normalized_def pixel_exps_def)
next
  fix k and a :: buf assume "k \<in> set [0..M - 1]" "k \<noteq> j"
  then have "0 \<le> k" by simp
  moreover have "0 \<le> i * M" using assms by simp
  ultimately have "0 \<le> i * M + k" "0 \<le> i * M + j" using assms by linarith+
  then have "nat (i * M + k) \<noteq> nat (i * M + j)" using \<open>k \<noteq> j\<close> by (simp add: eq_nat_nat_iff)
  then show "a[nat (i * M + k) := map (\<lambda>v. v / sum_list (pixel_exps ext M inp scale i)) (pixel_exps ext M inp scale i) ! nat k] ! nat (i * M + j) = a ! nat (i * M + j)"
    by simp
qed simp

lemma ExpAndNormalize_nth:
  assumes "0 \<le> i" "i < N_m st" "0 \<le> j" "j < M_m st" "nat (i * M_m st + j) < length out"
  shows "ExpAndNormalize ext st out inp scale ! nat (i * M_m st + j) = normalized ext (M_m st) inp scale i j"
  unfolding ExpAndNormalize_def
proof (rule fold_nth_inside [where i = i])
  show "i \<in> set [0..N_m st - 1]" using assms by simp
  show "nat (i * M_m st + j) < length out" by fact
next
  fix a :: buf assume "nat (i * M_m st + j) < length a"
  then show "ExpAndNormalize_pixel ext (M_m st) inp scale i a ! nat (i * M_m st + j) = normalized ext (M_m st) inp scale i j"
    using assms by (simp add: ExpAndNormalize_pixel_inside)
next
  fix k and a :: buf assume k: "k \<in> set [0..N_m st - 1]" "k \<noteq> i"
  show "ExpAndNormalize_pixel ext (M_m st) inp scale k a ! nat (i * M_m st + j) = a ! nat (i * M_m st + j)"
  proof (rule ExpAndNormalize_pixel_outside, rule notI, elim exE conjE)
    fix l assume l: "0 \<le> l" "l < M_m st" "nat (i * M_m st + j) = nat (k * M_m st + l)"
    have "0 \<le> i * M_m st" "0 \<le> k * M_m st" using assms k by simp_all
    with l assms have "i * M_m st + j = k * M_m st + l" by linarith
    with block_index_unique [of i k j "M_m st" l] assms l k show False by simp
  qed
qed simp

lemma pixel_max_Max:
  assumes "0 < M"
  shows "pixel_max M inp scale i = Max (set (pixel_values M inp scale i))"
proof -
  let ?f = "\<lambda>j. scale * inp ! nat (i * M + j)"
  let ?mx = "fold (\<lambda>j mx. if mx < ?f j then ?f j else mx) [1..M - 1] (?f 0)"
  have set: "set (pixel_values M inp scale i) = ?f ` {0..M - 1}"
    by (simp add: pixel_values_def)
  have ub: "?f j \<le> ?mx" if "j \<in> {0..M - 1}" for j
  proof (cases "j = 0")
    case True
    then show ?thesis using fold_max_ge_init [of "?f 0" ?f] by simp
  next
    case False
    with that have "j \<in> set [1..M - 1]" by simp
    then show ?thesis by (rule fold_max_ge_elem)
  qed
  have att: "?mx \<in> ?f ` {0..M - 1}"
  proof -
    from fold_max_attained [of ?f "[1..M - 1]" "?f 0"]
    consider (a) "?mx = ?f 0" | (b) j where "j \<in> set [1..M - 1]" "?mx = ?f j"
      by blast
    then show ?thesis
    proof cases
      case a
      have "0 \<in> {0..M - 1}" using assms by simp
      then have "?f 0 \<in> ?f ` {0..M - 1}" by (rule imageI)
      then show ?thesis unfolding a .
    next
      case b
      then have "j \<in> {0..M - 1}" by simp
      then have "?f j \<in> ?f ` {0..M - 1}" by (rule imageI)
      then show ?thesis unfolding b(2) .
    qed
  qed
  have "Max (?f ` {0..M - 1}) = ?mx"
    by (rule Max_eqI) (use ub att in auto)
  then show ?thesis by (simp add: pixel_max_def set)
qed

lemma pixel_exps_softmax:
  "pixel_exps ext M inp scale i =
     map (\<lambda>y. fast_exp ext (y - pixel_max M inp scale i)) (pixel_values M inp scale i)"
  by (simp add: pixel_exps_def pixel_values_def comp_def)

lemma normalized_softmax:
  assumes "0 \<le> j" "j < M"
  shows "normalized ext M inp scale i j = softmax (fast_exp ext) (pixel_values M inp scale i) ! nat j"
proof -
  have M: "0 < M" using assms by simp
  have l: "nat j < length (pixel_values M inp scale i)"
    using assms by (simp add: pixel_values_def)
  have v: "pixel_values M inp scale i ! nat j = scale * inp ! nat (i * M + j)"
    using assms by (simp add: pixel_values_def)
  show ?thesis
    using l by (simp add: softmax_def normalized_def pixel_exps_softmax v
        pixel_max_Max [OF M, symmetric])
qed

lemma pixel_exps_facts:
  assumes nn: "\<forall>x\<le>0. 0 \<le> fast_exp ext x" and p0: "0 < fast_exp ext 0" and M: "0 < M"
  shows "\<forall>v \<in> set (pixel_exps ext M inp scale i). 0 \<le> v"
    and "0 < sum_list (pixel_exps ext M inp scale i)"
proof -
  let ?vals = "pixel_values M inp scale i"
  have ne: "?vals \<noteq> []" using M by (simp add: pixel_values_def upto_split_first)
  have mx: "pixel_max M inp scale i = Max (set ?vals)" by (rule pixel_max_Max [OF M])
  show nonneg: "\<forall>v \<in> set (pixel_exps ext M inp scale i). 0 \<le> v"
  proof
    fix v assume "v \<in> set (pixel_exps ext M inp scale i)"
    then obtain y where y: "y \<in> set ?vals" "v = fast_exp ext (y - pixel_max M inp scale i)"
      by (auto simp: pixel_exps_softmax)
    then have "y \<le> Max (set ?vals)" by simp
    then show "0 \<le> v" using y nn mx by simp
  qed
  have "Max (set ?vals) \<in> set ?vals" using ne by (intro Max_in) simp_all
  then have "fast_exp ext 0 \<in> set (pixel_exps ext M inp scale i)"
    by (force simp: pixel_exps_softmax mx)
  then have "fast_exp ext 0 \<le> sum_list (pixel_exps ext M inp scale i)"
    using nonneg by (intro member_le_sum_list_real) auto
  then show "0 < sum_list (pixel_exps ext M inp scale i)" using p0 by simp
qed

lemma normalized_distribution:
  assumes nn: "\<forall>x\<le>0. 0 \<le> fast_exp ext x" and p0: "0 < fast_exp ext 0" and M: "0 < M"
  shows "\<forall>j \<in> {0..M - 1}. 0 \<le> normalized ext M inp scale i j"
    and "sum_list (map (normalized ext M inp scale i) [0..M - 1]) = 1"
proof -
  note f = pixel_exps_facts [OF nn p0 M, of inp scale i]
  show "\<forall>j \<in> {0..M - 1}. 0 \<le> normalized ext M inp scale i j"
  proof
    fix j assume "j \<in> {0..M - 1}"
    then have "fast_exp ext (scale * inp ! nat (i * M + j) - pixel_max M inp scale i)
        \<in> set (pixel_exps ext M inp scale i)"
      by (simp add: pixel_exps_def)
    with f show "0 \<le> normalized ext M inp scale i j"
      by (simp add: normalized_def)
  qed
  have "map (normalized ext M inp scale i) [0..M - 1]
      = map (\<lambda>v. v / sum_list (pixel_exps ext M inp scale i)) (pixel_exps ext M inp scale i)"
    by (simp add: normalized_def pixel_exps_def comp_def)
  then show "sum_list (map (normalized ext M inp scale i) [0..M - 1]) = 1"
    using f(2) by (simp add: sum_list_div)
qed

lemma ExpAndNormalize_distribution:
  assumes nn: "\<forall>x\<le>0. 0 \<le> fast_exp ext x" and p0: "0 < fast_exp ext 0"
    and M: "0 < M_m st" and cap: "N_m st * M_m st \<le> int (length out)"
    and i: "0 \<le> i" "i < N_m st"
  shows "distribution_at (ExpAndNormalize ext st out inp scale) (M_m st) i"
proof -
  have e: "ExpAndNormalize ext st out inp scale ! nat (i * M_m st + j)
        = normalized ext (M_m st) inp scale i j" if "j \<in> set [0..M_m st - 1]" for j
    using that i cap by (intro ExpAndNormalize_nth) (auto intro: active_index_bound)
  have m: "map (\<lambda>j. ExpAndNormalize ext st out inp scale ! nat (i * M_m st + j)) [0..M_m st - 1]
      = map (normalized ext (M_m st) inp scale i) [0..M_m st - 1]"
    by (rule map_cong) (simp_all only: e)
  have s: "sum_list (map (\<lambda>j. ExpAndNormalize ext st out inp scale ! nat (i * M_m st + j))
      [0..M_m st - 1]) = 1"
    unfolding m by (rule normalized_distribution(2) [OF nn p0 M])
  have a: "list_all (\<lambda>j. 0 \<le> ExpAndNormalize ext st out inp scale ! nat (i * M_m st + j))
      [0..M_m st - 1]"
    unfolding list_all_iff using e normalized_distribution(1) [OF nn p0 M] by simp
  show ?thesis unfolding distribution_at_def using a s by (rule conjI)
qed

lemma ExpAndNormalize_softmax:
  assumes "0 \<le> i" "i < N_m st" "0 \<le> j" "j < M_m st" "nat (i * M_m st + j) < length out"
  shows "ExpAndNormalize ext st out inp scale ! nat (i * M_m st + j)
       = softmax (fast_exp ext) (pixel_values (M_m st) inp scale i) ! nat j"
  using assms by (simp add: ExpAndNormalize_nth normalized_softmax)

lemma ExpAndNormalize_ext_st:
  "ExpAndNormalize (ext\<lparr>potts_apply := pa\<rparr>) (st\<lparr>pairwise_m := ps\<rparr>) out inp scale
     = ExpAndNormalize ext st out inp scale"
  by (simp add: ExpAndNormalize_def ExpAndNormalize_pixel_def [abs_def])

lemma ExpAndNormalize_pixel_cong:
  assumes eq: "\<And>j. 0 \<le> j \<Longrightarrow> j < M \<Longrightarrow> inp1 ! nat (i * M + j) = inp2 ! nat (i * M + j)"
    and M: "0 < M"
  shows "ExpAndNormalize_pixel ext M inp1 scale i out = ExpAndNormalize_pixel ext M inp2 scale i out"
proof -
  have mx: "pixel_max M inp1 scale i = pixel_max M inp2 scale i"
    unfolding pixel_max_def
  proof (rule fold_cong)
    show "scale * inp1 ! nat (i * M + 0) = scale * inp2 ! nat (i * M + 0)"
      using eq [of 0] M by simp
  next
    fix x assume "x \<in> set [1..M - 1]"
    then have "inp1 ! nat (i * M + x) = inp2 ! nat (i * M + x)" by (intro eq) simp_all
    then show "(\<lambda>mx. if mx < scale * inp1 ! nat (i * M + x)
                     then scale * inp1 ! nat (i * M + x) else mx)
             = (\<lambda>mx. if mx < scale * inp2 ! nat (i * M + x)
                     then scale * inp2 ! nat (i * M + x) else mx)"
      by (simp only:)
  qed simp
  have "pixel_exps ext M inp1 scale i = pixel_exps ext M inp2 scale i"
    unfolding pixel_exps_def mx by (rule map_cong) (simp_all add: eq)
  then show ?thesis by (simp add: ExpAndNormalize_pixel_alt)
qed

lemma ExpAndNormalize_pixel_no_class:
  "M \<le> 0 \<Longrightarrow> ExpAndNormalize_pixel ext M inp scale i out = out"
  by (simp add: ExpAndNormalize_pixel_def Let_def)

lemma ExpAndNormalize_cong_take:
  assumes "take (nat (N_m st * M_m st)) inp1 = take (nat (N_m st * M_m st)) inp2"
  shows "ExpAndNormalize ext st out inp1 scale = ExpAndNormalize ext st out inp2 scale"
proof (cases "0 < M_m st")
  case False
  then have "ExpAndNormalize ext st out inp scale = out" for inp
    unfolding ExpAndNormalize_def by (intro fold_id ExpAndNormalize_pixel_no_class) simp
  then show ?thesis by simp
next
  case True
  show ?thesis
    unfolding ExpAndNormalize_def
  proof (rule fold_cong)
    fix i assume i: "i \<in> set [0..N_m st - 1]"
    have "ExpAndNormalize_pixel ext (M_m st) inp1 scale i a
        = ExpAndNormalize_pixel ext (M_m st) inp2 scale i a" for a
    proof (rule ExpAndNormalize_pixel_cong [OF _ True])
      fix j assume j: "0 \<le> j" "j < M_m st"
      let ?n = "nat (N_m st * M_m st)"
      have b: "nat (i * M_m st + j) < ?n"
        using i j by (intro active_index_bound [where N = "N_m st" and M = "M_m st"]) simp_all
      have "inp1 ! nat (i * M_m st + j) = take ?n inp1 ! nat (i * M_m st + j)"
        using b by simp
      also have "\<dots> = take ?n inp2 ! nat (i * M_m st + j)" by (simp only: assms)
      also have "\<dots> = inp2 ! nat (i * M_m st + j)" using b by simp
      finally show "inp1 ! nat (i * M_m st + j) = inp2 ! nat (i * M_m st + j)" .
    qed
    then show "ExpAndNormalize_pixel ext (M_m st) inp1 scale i
        = ExpAndNormalize_pixel ext (M_m st) inp2 scale i" by (rule ext)
  qed simp_all
qed

section \<open>The iteration schedule\<close>

lemma StepInference_fields [simp]:
  "max_iter_m (StepInference ext sse st) = max_iter_m st"
  "M_m (StepInference ext sse st) = M_m st"
  "N_m (StepInference ext sse st) = N_m st"
  "H_m (StepInference ext sse st) = H_m st"
  "W_m (StepInference ext sse st) = W_m st"
  "length (current_m (StepInference ext sse st)) = length (current_m st)"
  by (simp_all add: StepInference_def Let_def)

lemma StartInference_fields [simp]:
  "max_iter_m (StartInference ext st) = max_iter_m st"
  "M_m (StartInference ext st) = M_m st"
  "N_m (StartInference ext st) = N_m st"
  "H_m (StartInference ext st) = H_m st"
  "W_m (StartInference ext st) = W_m st"
  "length (current_m (StartInference ext st)) = length (current_m st)"
  by (simp_all add: StartInference_def)

lemma RunInference_loop_funpow:
  "RunInference_loop ext sse i st = (StepInference ext sse ^^ nat (max_iter_m st - i)) st"
proof (induction ext sse i st rule: RunInference_loop.induct)
  case (1 ext sse i st)
  show ?case
  proof (cases "i < max_iter_m st")
    case True
    then have n: "nat (max_iter_m st - i) = Suc (nat (max_iter_m st - (i + 1)))" by simp
    have "RunInference_loop ext sse i st
        = RunInference_loop ext sse (i + 1) (StepInference ext sse st)"
      using True by (subst RunInference_loop.simps) simp
    also have "\<dots> = (StepInference ext sse ^^ nat (max_iter_m st - (i + 1)))
        (StepInference ext sse st)"
      using "1.IH" [OF True] by simp
    finally show ?thesis unfolding n by (simp add: funpow_swap1)
  next
    case False
    then show ?thesis by (subst RunInference_loop.simps) simp
  qed
qed

lemma RunInference_funpow:
  "RunInference ext sse st = (StepInference ext sse ^^ nat (max_iter_m st)) (StartInference ext st)"
  by (simp add: RunInference_def RunInference_loop_funpow)

lemma funpow_Step_fields [simp]:
  "M_m ((StepInference ext sse ^^ k) st) = M_m st"
  "N_m ((StepInference ext sse ^^ k) st) = N_m st"
  "H_m ((StepInference ext sse ^^ k) st) = H_m st"
  "W_m ((StepInference ext sse ^^ k) st) = W_m st"
  "length (current_m ((StepInference ext sse ^^ k) st)) = length (current_m st)"
  by (induction k) simp_all

lemma negate_scalar_length [simp]: "length (negate_scalar st) = length (next_m st)"
  unfolding negate_scalar_def by (rule fold_length_inv) simp

lemma negate_sse_length [simp]: "length (negate_sse st) = length (next_m st)"
  unfolding negate_sse_def
  by (rule fold_length_inv, rule fold_length_inv) simp

lemma negate_scalar_nth:
  assumes "p < nat (N_m st * M_m st)" "p < length (next_m st)"
  shows "negate_scalar st ! p = - (unary_m st ! p)"
  unfolding negate_scalar_def
proof (rule fold_nth_inside [where i = "int p"])
  show "int p \<in> set [0..N_m st * M_m st - 1]" using assms by simp
  show "p < length (next_m st)" by fact
next
  fix k and a :: buf assume "k \<in> set [0..N_m st * M_m st - 1]" "k \<noteq> int p"
  then have "nat k \<noteq> p" by auto
  then show "a[nat k := - (unary_m st ! nat k)] ! p = a ! p" by simp
qed simp_all

lemma sdiv_nonneg: "0 \<le> a \<Longrightarrow> (a::int) sdiv 4 = a div 4"
  by (simp add: signed_divide_int_def sgn_if)

lemma negate_sse_nth:
  assumes "p < nat (N_m st * M_m st)" "p < length (next_m st)"
  shows "negate_sse st ! p = - (unary_m st ! p)"
  unfolding negate_sse_def
proof (rule fold_nth_inside [where i = "int p div 4"])
  have pos: "0 \<le> N_m st * M_m st - 1" using assms by simp
  have "int p \<le> N_m st * M_m st - 1" using assms by simp
  then have "int p div 4 \<le> (N_m st * M_m st - 1) div 4" by (rule zdiv_mono1) simp
  then show "int p div 4 \<in> set [0..(N_m st * M_m st - 1) sdiv 4 + 1 - 1]"
    by (simp add: sdiv_nonneg [OF pos])
  show "p < length (next_m st)" by fact
next
  fix a :: buf assume pa: "p < length a"
  show "fold (\<lambda>k nx. nx[nat (4 * (int p div 4) + k) := - (unary_m st ! nat (4 * (int p div 4) + k))])
          [0..3] a ! p = - (unary_m st ! p)"
  proof (rule fold_nth_inside [where i = "int p mod 4"])
    show "int p mod 4 \<in> set [0..3]" by simp
    show "p < length a" by fact
  next
    fix b :: buf assume "p < length b"
    moreover have "nat (4 * (int p div 4) + int p mod 4) = p" by simp
    ultimately show "b[nat (4 * (int p div 4) + int p mod 4) :=
        - (unary_m st ! nat (4 * (int p div 4) + int p mod 4))] ! p = - (unary_m st ! p)"
      by simp
  next
    fix k and b :: buf assume "k \<in> set [0..3]" "k \<noteq> int p mod 4"
    then have k: "0 \<le> k" "k \<le> 3" "k \<noteq> int p mod 4" by simp_all
    then have "4 * (int p div 4) + k \<noteq> int p" by presburger
    moreover have "0 \<le> 4 * (int p div 4) + k" using k by simp
    ultimately have "nat (4 * (int p div 4) + k) \<noteq> p" by linarith
    then show "b[nat (4 * (int p div 4) + k) := - (unary_m st ! nat (4 * (int p div 4) + k))] ! p
        = b ! p" by simp
  qed simp
next
  fix i and a :: buf assume i: "i \<in> set [0..(N_m st * M_m st - 1) sdiv 4 + 1 - 1]" "i \<noteq> int p div 4"
  show "fold (\<lambda>k nx. nx[nat (4 * i + k) := - (unary_m st ! nat (4 * i + k))]) [0..3] a ! p = a ! p"
  proof (rule fold_nth_outside)
    fix k and b :: buf assume "k \<in> set [0..3]"
    then have k: "0 \<le> k" "k < 4" by simp_all
    have "0 \<le> i" using i by simp
    have "4 * i + k \<noteq> int p"
    proof
      assume e: "4 * i + k = int p"
      have "(4 * i + k) div 4 = i" using k by simp
      with e i(2) show False by simp
    qed
    then have "nat (4 * i + k) \<noteq> p" using \<open>0 \<le> i\<close> k by linarith
    then show "b[nat (4 * i + k) := - (unary_m st ! nat (4 * i + k))] ! p = b ! p" by simp
  qed
qed (rule fold_length_inv, simp)

lemma negate_take_eq:
  "take (nat (N_m st * M_m st)) (negate_sse st) = take (nat (N_m st * M_m st)) (negate_scalar st)"
  by (rule nth_equalityI) (simp_all add: negate_sse_nth negate_scalar_nth)

lemma negate_take_char:
  "take (nat (N_m st * M_m st)) (negate_scalar st)
     = map (\<lambda>p. - (unary_m st ! p)) [0..<min (nat (N_m st * M_m st)) (length (next_m st))]"
  "take (nat (N_m st * M_m st)) (negate_sse st)
     = map (\<lambda>p. - (unary_m st ! p)) [0..<min (nat (N_m st * M_m st)) (length (next_m st))]"
proof -
  let ?n = "nat (N_m st * M_m st)"
  show "take ?n (negate_scalar st)
     = map (\<lambda>p. - (unary_m st ! p)) [0..<min ?n (length (next_m st))]"
  proof (rule nth_equalityI)
    fix i assume "i < length (take ?n (negate_scalar st))"
    then have "i < ?n" "i < length (next_m st)" by simp_all
    then show "take ?n (negate_scalar st) ! i
        = map (\<lambda>p. - (unary_m st ! p)) [0..<min ?n (length (next_m st))] ! i"
      by (simp add: negate_scalar_nth)
  qed (simp add: min.commute)
  show "take ?n (negate_sse st)
     = map (\<lambda>p. - (unary_m st ! p)) [0..<min ?n (length (next_m st))]"
  proof (rule nth_equalityI)
    fix i assume "i < length (take ?n (negate_sse st))"
    then have "i < ?n" "i < length (next_m st)" by simp_all
    then show "take ?n (negate_sse st) ! i
        = map (\<lambda>p. - (unary_m st ! p)) [0..<min ?n (length (next_m st))] ! i"
      by (simp add: negate_sse_nth)
  qed (simp add: min.commute)
qed

lemma apply_pairwise_Nil: "apply_pairwise ext (st\<lparr>pairwise_m := []\<rparr>) s = s"
  by (simp add: apply_pairwise_def)

lemma apply_pairwise_Cons:
  "apply_pairwise ext (st\<lparr>pairwise_m := p # ps\<rparr>) s
     = apply_pairwise ext (st\<lparr>pairwise_m := ps\<rparr>)
         (potts_apply ext p (fst s) (current_m st) (snd s) (M_m st))"
  by (cases s) (simp add: apply_pairwise_def)

text \<open>
  C5: the solver is the start step followed by exactly \<open>max_iter_\<close> steps, whatever the
  state (no convergence test). The start step sets \<^verbatim>\<open>current_\<close> to the normalization of
  the unary energy with scale \<open>-1\<close>. A step sets the active entries of \<^verbatim>\<open>next_\<close> to the
  negated unary energy (in the scalar loop and in the vector loop of \<^verbatim>\<open>SSE_DENSE_CRF\<close>
  alike), lets every potential of the list act on it in list order (first potential
  first), and sets \<^verbatim>\<open>current_\<close> to the normalization of the result. The
  normalization of an active entry is the softmax of the scaled entries of its pixel.
  With an iteration count of at most 0 the final marginals are the normalization of the
  negated unary energy, whatever potentials are in the list and whatever \<^verbatim>\<open>apply\<close> does.
\<close>

theorem C5_fixed_iteration_schedule:
  "RunInference ext sse st
     = (StepInference ext sse ^^ nat (max_iter_m st)) (StartInference ext st)
   \<and> current_m (StartInference ext st)
       = ExpAndNormalize ext st (current_m st) (unary_m st) (- 1)
   \<and> next_m (StepInference ext False st)
       = fst (apply_pairwise ext st (negate_scalar st, tmp_m st))
   \<and> (\<forall>p. p < nat (N_m st * M_m st) \<and> p < length (next_m st)
          \<longrightarrow> negate_scalar st ! p = - (unary_m st ! p))
   \<and> next_m (StepInference ext True st)
       = fst (apply_pairwise ext st (negate_sse st, tmp_m st))
   \<and> (\<forall>p. p < nat (N_m st * M_m st) \<and> p < length (next_m st)
          \<longrightarrow> negate_sse st ! p = - (unary_m st ! p))
   \<and> apply_pairwise ext (st\<lparr>pairwise_m := []\<rparr>) s = s
   \<and> apply_pairwise ext (st\<lparr>pairwise_m := q # qs\<rparr>) s
       = apply_pairwise ext (st\<lparr>pairwise_m := qs\<rparr>)
           (potts_apply ext q (fst s) (current_m st) (snd s) (M_m st))
   \<and> current_m (StepInference ext sse st)
       = ExpAndNormalize ext st (current_m st) (next_m (StepInference ext sse st)) 1
   \<and> (\<forall>i j. 0 \<le> i \<and> i < N_m st \<and> 0 \<le> j \<and> j < M_m st
          \<and> nat (i * M_m st + j) < length out
          \<longrightarrow> ExpAndNormalize ext st out inp scale ! nat (i * M_m st + j)
              = softmax (fast_exp ext) (pixel_values (M_m st) inp scale i) ! nat j)
   \<and> (max_iter_m st \<le> 0
        \<longrightarrow> current_m (RunInference (ext\<lparr>potts_apply := pa\<rparr>) sse (st\<lparr>pairwise_m := ps\<rparr>))
            = ExpAndNormalize ext st (current_m st) (unary_m st) (- 1))"
proof (intro conjI allI impI)
  show "RunInference ext sse st
     = (StepInference ext sse ^^ nat (max_iter_m st)) (StartInference ext st)"
    by (rule RunInference_funpow)
  show "current_m (StartInference ext st)
       = ExpAndNormalize ext st (current_m st) (unary_m st) (- 1)"
    by (simp add: StartInference_def)
  show "next_m (StepInference ext False st)
       = fst (apply_pairwise ext st (negate_scalar st, tmp_m st))"
    by (simp add: StepInference_def Let_def)
  show "next_m (StepInference ext True st)
       = fst (apply_pairwise ext st (negate_sse st, tmp_m st))"
    by (simp add: StepInference_def Let_def)
  show "apply_pairwise ext (st\<lparr>pairwise_m := []\<rparr>) s = s"
    by (rule apply_pairwise_Nil)
  show "apply_pairwise ext (st\<lparr>pairwise_m := q # qs\<rparr>) s
       = apply_pairwise ext (st\<lparr>pairwise_m := qs\<rparr>)
           (potts_apply ext q (fst s) (current_m st) (snd s) (M_m st))"
    by (rule apply_pairwise_Cons)
  show "current_m (StepInference ext sse st)
       = ExpAndNormalize ext st (current_m st) (next_m (StepInference ext sse st)) 1"
    by (simp add: StepInference_def Let_def)
next
  fix p assume "p < nat (N_m st * M_m st) \<and> p < length (next_m st)"
  then show "negate_scalar st ! p = - (unary_m st ! p)"
    by (simp add: negate_scalar_nth)
next
  fix p assume "p < nat (N_m st * M_m st) \<and> p < length (next_m st)"
  then show "negate_sse st ! p = - (unary_m st ! p)"
    by (simp add: negate_sse_nth)
next
  fix i j
  assume "0 \<le> i \<and> i < N_m st \<and> 0 \<le> j \<and> j < M_m st \<and> nat (i * M_m st + j) < length out"
  then show "ExpAndNormalize ext st out inp scale ! nat (i * M_m st + j)
              = softmax (fast_exp ext) (pixel_values (M_m st) inp scale i) ! nat j"
    by (simp add: ExpAndNormalize_softmax)
next
  assume "max_iter_m st \<le> 0"
  then show "current_m (RunInference (ext\<lparr>potts_apply := pa\<rparr>) sse (st\<lparr>pairwise_m := ps\<rparr>))
            = ExpAndNormalize ext st (current_m st) (unary_m st) (- 1)"
    by (simp add: RunInference_funpow StartInference_def ExpAndNormalize_ext_st)
qed

theorem C5_fixed_iteration_schedule_witness:
  "max_iter_m one_pixel_state \<le> 0
   \<and> current_m (RunInference exact_ext False one_pixel_state) ! 0 = 1 / 2
   \<and> negate_sse two_step_state ! 1 = - 3
   \<and> negate_scalar two_step_state ! 1 = - 3"
proof -
  have h: "max_iter_m one_pixel_state \<le> 0" "M_m one_pixel_state = 2" "N_m one_pixel_state = 1"
    "current_m one_pixel_state = [0, 0]" "unary_m one_pixel_state = [0, 0]"
    by (simp_all add: one_pixel_state_def new_layer_def)
  have e: "exact_ext\<lparr>potts_apply := potts_apply exact_ext\<rparr> = exact_ext"
    "one_pixel_state\<lparr>pairwise_m := pairwise_m one_pixel_state\<rparr> = one_pixel_state"
    by simp_all
  have v: "pixel_values 2 [0, 0] (- 1) 0 = [0, 0]"
    by (simp add: pixel_values_def upto.simps)
  note c = C5_fixed_iteration_schedule [of exact_ext False one_pixel_state undefined undefined undefined
      "current_m one_pixel_state" "unary_m one_pixel_state" "- 1"
      "potts_apply exact_ext" "pairwise_m one_pixel_state"]
  from c h have r: "current_m (RunInference exact_ext False one_pixel_state)
      = ExpAndNormalize exact_ext one_pixel_state [0, 0] [0, 0] (- 1)"
    unfolding e by simp
  from c have q: "0 \<le> i \<and> i < N_m one_pixel_state \<and> 0 \<le> j \<and> j < M_m one_pixel_state
      \<and> nat (i * M_m one_pixel_state + j) < length (current_m one_pixel_state)
     \<longrightarrow> ExpAndNormalize exact_ext one_pixel_state (current_m one_pixel_state)
           (unary_m one_pixel_state) (- 1) ! nat (i * M_m one_pixel_state + j)
       = softmax (fast_exp exact_ext)
           (pixel_values (M_m one_pixel_state) (unary_m one_pixel_state) (- 1) i) ! nat j"
    for i j by blast
  from q [of 0 0] h
  have "ExpAndNormalize exact_ext one_pixel_state [0, 0] [0, 0] (- 1) ! 0
      = softmax (fast_exp exact_ext) (pixel_values 2 [0, 0] (- 1) 0) ! 0"
    by simp
  with r have a: "current_m (RunInference exact_ext False one_pixel_state) ! 0 = 1 / 2"
    by (simp add: v softmax_def exact_ext_def)
  have t: "nat (N_m two_step_state * M_m two_step_state) = 2" "length (next_m two_step_state) = 2"
    "unary_m two_step_state ! 1 = 3"
    by (simp_all add: two_step_state_def one_pixel_state_def new_layer_def)
  note c2 = C5_fixed_iteration_schedule [of exact_ext True two_step_state undefined undefined
      undefined undefined undefined undefined undefined undefined]
  from c2 have "p < nat (N_m two_step_state * M_m two_step_state)
      \<and> p < length (next_m two_step_state)
     \<longrightarrow> negate_sse two_step_state ! p = - (unary_m two_step_state ! p)"
    and "p < nat (N_m two_step_state * M_m two_step_state)
      \<and> p < length (next_m two_step_state)
     \<longrightarrow> negate_scalar two_step_state ! p = - (unary_m two_step_state ! p)" for p
    by blast+
  from this [of 1] have "negate_sse two_step_state ! 1 = - 3"
    "negate_scalar two_step_state ! 1 = - 3"
    unfolding t by simp_all
  with a h(1) show ?thesis by simp
qed

section \<open>Marginals are distributions\<close>

lemma valid_marginals_ExpAndNormalize:
  assumes "\<forall>x\<le>0. 0 \<le> fast_exp ext x" and "0 < fast_exp ext 0"
    and "0 < M_m st" and "N_m st * M_m st \<le> int (length out)"
    and "M_m st' = M_m st" and "N_m st' = N_m st"
    and "current_m st' = ExpAndNormalize ext st out inp scale"
  shows "valid_marginals st'"
  unfolding valid_marginals_def list_all_iff
  using assms by (auto intro: ExpAndNormalize_distribution)

lemma valid_marginals_Start:
  assumes "\<forall>x\<le>0. 0 \<le> fast_exp ext x" and "0 < fast_exp ext 0"
    and "0 < M_m st" and "N_m st * M_m st \<le> int (length (current_m st))"
  shows "valid_marginals (StartInference ext st)"
  by (rule valid_marginals_ExpAndNormalize [OF assms]) (simp_all add: StartInference_def)

lemma valid_marginals_Step:
  assumes "\<forall>x\<le>0. 0 \<le> fast_exp ext x" and "0 < fast_exp ext 0"
    and "0 < M_m st" and "N_m st * M_m st \<le> int (length (current_m st))"
  shows "valid_marginals (StepInference ext sse st)"
  by (rule valid_marginals_ExpAndNormalize [OF assms]) (simp_all add: StepInference_def Let_def)

lemma exact_ext_ok: "\<forall>x\<le>0. 0 \<le> fast_exp exact_ext x" "0 < fast_exp exact_ext 0"
  by (simp_all add: exact_ext_def)

text \<open>
  C6: in exact arithmetic, with an exponential that is non-negative on arguments up to 0
  and positive at 0, with at least one class and buffers that hold the active entries:
  after the start step and after every iteration (hence also at the end of the solver)
  the \<open>M\<close> entries of \<^verbatim>\<open>current_\<close> of every active pixel are non-negative and sum to one.
\<close>

theorem C6_marginals_are_distributions:
  assumes nn: "\<forall>x\<le>0. 0 \<le> fast_exp ext x" and p0: "0 < fast_exp ext 0"
    and M: "0 < M_m st" and cap: "N_m st * M_m st \<le> int (length (current_m st))"
  shows "valid_marginals ((StepInference ext sse ^^ k) (StartInference ext st))
       \<and> valid_marginals (RunInference ext sse st)"
proof -
  have v: "valid_marginals ((StepInference ext sse ^^ k) (StartInference ext st))" for k
  proof (cases k)
    case 0
    then show ?thesis using valid_marginals_Start [OF assms] by simp
  next
    case (Suc m)
    let ?s = "(StepInference ext sse ^^ m) (StartInference ext st)"
    have "valid_marginals (StepInference ext sse ?s)"
      by (rule valid_marginals_Step [OF nn p0]) (use M cap in simp_all)
    then show ?thesis using Suc by simp
  qed
  then show ?thesis by (simp add: RunInference_funpow)
qed

theorem C6_marginals_are_distributions_witness:
  "0 < M_m one_pixel_state
   \<and> N_m one_pixel_state * M_m one_pixel_state \<le> int (length (current_m one_pixel_state))
   \<and> valid_marginals (StartInference exact_ext one_pixel_state)
   \<and> valid_marginals (RunInference exact_ext False one_pixel_state)"
proof -
  have h: "0 < M_m one_pixel_state"
    "N_m one_pixel_state * M_m one_pixel_state \<le> int (length (current_m one_pixel_state))"
    by (simp_all add: one_pixel_state_def new_layer_def)
  from C6_marginals_are_distributions [OF exact_ext_ok h, where sse = False and k = 0] h show ?thesis by simp
qed

section \<open>The vectorized unary step\<close>

lemma fold_potts_prefix:
  assumes "reads_active_prefix ext n"
  shows "take n (fst a) = take n (fst b) \<Longrightarrow> snd a = snd b \<Longrightarrow>
     take n (fst (fold (\<lambda>p (nx, tmp). potts_apply ext p nx cur tmp m) ps a))
       = take n (fst (fold (\<lambda>p (nx, tmp). potts_apply ext p nx cur tmp m) ps b))
     \<and> snd (fold (\<lambda>p (nx, tmp). potts_apply ext p nx cur tmp m) ps a)
       = snd (fold (\<lambda>p (nx, tmp). potts_apply ext p nx cur tmp m) ps b)"
proof (induction ps arbitrary: a b)
  case Nil
  then show ?case by simp
next
  case (Cons p ps)
  obtain nx1 t1 where a: "a = (nx1, t1)" by (cases a)
  obtain nx2 t2 where b: "b = (nx2, t2)" by (cases b)
  from Cons.prems a b have tk: "take n nx1 = take n nx2" and t: "t1 = t2" by simp_all
  from assms tk have
    "take n (fst (potts_apply ext p nx1 cur t1 m)) = take n (fst (potts_apply ext p nx2 cur t1 m))"
    "snd (potts_apply ext p nx1 cur t1 m) = snd (potts_apply ext p nx2 cur t1 m)"
    unfolding reads_active_prefix_def by blast+
  from Cons.IH [OF this] show ?case by (simp add: a b t)
qed

lemma active_view_eqD:
  assumes "active_view s1 = active_view s2"
  shows "s2 = s1\<lparr>next_m := next_m s2\<rparr>"
    and "take (nat (N_m s1 * M_m s1)) (next_m s1) = take (nat (N_m s1 * M_m s1)) (next_m s2)"
  using assms by (cases s1; cases s2; simp add: active_view_def)+

lemma negate_next_update:
  "take (nat (N_m st * M_m st)) (if b then negate_sse (st\<lparr>next_m := nx\<rparr>)
                                 else negate_scalar (st\<lparr>next_m := nx\<rparr>))
     = map (\<lambda>p. - (unary_m st ! p)) [0..<min (nat (N_m st * M_m st)) (length nx)]"
  using negate_take_char [of "st\<lparr>next_m := nx\<rparr>"] by simp

lemma StepInference_active_view:
  assumes resp: "reads_active_prefix ext (nat (N_m s1 * M_m s1))"
    and av: "active_view s1 = active_view s2"
  shows "active_view (StepInference ext b1 s1) = active_view (StepInference ext b2 s2)"
proof -
  let ?n = "nat (N_m s1 * M_m s1)"
  note d = active_view_eqD [OF av]
  define nx2 where "nx2 = next_m s2"
  have s2: "s2 = s1\<lparr>next_m := nx2\<rparr>" using d(1) by (simp add: nx2_def)
  have s1: "s1 = s1\<lparr>next_m := next_m s1\<rparr>" by simp
  have tk: "take ?n (next_m s1) = take ?n nx2" using d(2) by (simp add: nx2_def)
  then have "length (take ?n (next_m s1)) = length (take ?n nx2)" by simp
  then have len: "min ?n (length (next_m s1)) = min ?n (length nx2)"
    by (simp add: min.commute)
  let ?g1 = "if b1 then negate_sse s1 else negate_scalar s1"
  let ?g2 = "if b2 then negate_sse (s1\<lparr>next_m := nx2\<rparr>) else negate_scalar (s1\<lparr>next_m := nx2\<rparr>)"
  have g1: "take ?n ?g1 = map (\<lambda>p. - (unary_m s1 ! p)) [0..<min ?n (length (next_m s1))]"
    using negate_take_char [of s1] by (cases b1) simp_all
  have g: "take ?n ?g1 = take ?n ?g2"
    unfolding g1 negate_next_update len ..
  let ?F = "\<lambda>p (nx, tmp). potts_apply ext p nx (current_m s1) tmp (M_m s1)"
  have f: "take ?n (fst (fold ?F (pairwise_m s1) (?g1, tmp_m s1)))
         = take ?n (fst (fold ?F (pairwise_m s1) (?g2, tmp_m s1)))
       \<and> snd (fold ?F (pairwise_m s1) (?g1, tmp_m s1))
         = snd (fold ?F (pairwise_m s1) (?g2, tmp_m s1))"
    by (rule fold_potts_prefix [OF resp]) (use g in simp_all)
  have e: "ExpAndNormalize ext s1 (current_m s1) (fst (fold ?F (pairwise_m s1) (?g1, tmp_m s1))) 1
         = ExpAndNormalize ext s1 (current_m s1) (fst (fold ?F (pairwise_m s1) (?g2, tmp_m s1))) 1"
    by (rule ExpAndNormalize_cong_take) (use f in simp)
  have en: "ExpAndNormalize ext (s1\<lparr>next_m := nx2\<rparr>) = ExpAndNormalize ext s1"
    by (simp add: ExpAndNormalize_def [abs_def])
  show ?thesis
    unfolding s2
    using f e
    by (simp add: StepInference_def Let_def active_view_def apply_pairwise_def en)
qed

lemma funpow_active_view:
  assumes resp: "reads_active_prefix ext (nat (N_m s1 * M_m s1))"
    and av: "active_view s1 = active_view s2"
  shows "active_view ((StepInference ext b1 ^^ k) s1) = active_view ((StepInference ext b2 ^^ k) s2)"
proof (induction k)
  case 0
  then show ?case using av by simp
next
  case (Suc k)
  have "reads_active_prefix ext (nat (N_m ((StepInference ext b1 ^^ k) s1)
      * M_m ((StepInference ext b1 ^^ k) s1)))"
    using resp by simp
  from StepInference_active_view [OF this Suc.IH] show ?case by simp
qed

lemma RunInference_active_view:
  assumes "reads_active_prefix ext (nat (N_m st * M_m st))"
  shows "active_view (RunInference ext b1 st) = active_view (RunInference ext b2 st)"
  unfolding RunInference_funpow
  by (rule funpow_active_view) (use assms in simp_all)

lemma ComputeMap_pixel_view:
  assumes "active_view sa = active_view sb"
  shows "ComputeMap_pixel sa = ComputeMap_pixel sb"
    and "H_m sa = H_m sb" and "W_m sa = W_m sb" and "current_m sa = current_m sb"
proof -
  from active_view_eqD(1) [OF assms] obtain nx where sb: "sb = sa\<lparr>next_m := nx\<rparr>" ..
  show "ComputeMap_pixel sa = ComputeMap_pixel sb"
    unfolding sb by (simp add: ComputeMap_pixel_def [abs_def] ComputeMap_channel_def [abs_def])
  show "H_m sa = H_m sb" "W_m sa = W_m sb" "current_m sa = current_m sb"
    unfolding sb by simp_all
qed

lemma ComputeMap_active_view:
  assumes "reads_active_prefix ext (nat (N_m st * M_m st))"
  shows "map_sum id snd (ComputeMap ext b1 n tops st) = map_sum id snd (ComputeMap ext b2 n tops st)"
proof -
  note v = ComputeMap_pixel_view [OF RunInference_active_view [OF assms, of b1 b2]]
  show ?thesis by (simp add: ComputeMap_def Let_def v)
qed

lemma exact_ext_reads_prefix: "reads_active_prefix exact_ext n"
  unfolding reads_active_prefix_def exact_ext_def
  by (simp add: take_map take_zip)

text \<open>
  C7: the loop compiled under \<^verbatim>\<open>SSE_DENSE_CRF\<close> and the scalar loop leave the same values
  in the first \<open>N_ * M_\<close> entries of \<^verbatim>\<open>next_\<close>. If the external \<^verbatim>\<open>apply\<close> reads only these
  entries of its accumulator, a step, the whole solver and the decoding give the same
  result under both variants, up to the entries of \<^verbatim>\<open>next_\<close> beyond the active ones: the
  same marginals and the same two output maps (or the same failure).
\<close>

theorem C7_sse_equals_scalar:
  assumes "reads_active_prefix ext (nat (N_m st * M_m st))"
  shows "take (nat (N_m st * M_m st)) (negate_sse st)
           = take (nat (N_m st * M_m st)) (negate_scalar st)
       \<and> active_view (StepInference ext True st) = active_view (StepInference ext False st)
       \<and> active_view (RunInference ext True st) = active_view (RunInference ext False st)
       \<and> current_m (RunInference ext True st) = current_m (RunInference ext False st)
       \<and> map_sum id snd (ComputeMap ext True n tops st)
           = map_sum id snd (ComputeMap ext False n tops st)"
proof -
  have "active_view (StepInference ext True st) = active_view (StepInference ext False st)"
    by (rule StepInference_active_view [OF assms refl])
  moreover note r = RunInference_active_view [OF assms, of True False]
  moreover have "current_m (RunInference ext True st) = current_m (RunInference ext False st)"
    by (rule ComputeMap_pixel_view(4) [OF r])
  ultimately show ?thesis
    using negate_take_eq [of st] ComputeMap_active_view [OF assms, of True n tops False]
    by simp
qed

theorem C7_sse_equals_scalar_witness:
  "take 2 (negate_sse two_step_state) = take 2 (negate_scalar two_step_state)
   \<and> negate_scalar two_step_state = [- 1, - 3]
   \<and> current_m (RunInference exact_ext True two_step_state)
       = current_m (RunInference exact_ext False two_step_state)
   \<and> map_sum id snd (ComputeMap exact_ext True 0 (empty_blob, empty_blob) two_step_state)
       = map_sum id snd (ComputeMap exact_ext False 0 (empty_blob, empty_blob) two_step_state)"
proof -
  have h: "nat (N_m two_step_state * M_m two_step_state) = 2"
    by (simp add: two_step_state_def one_pixel_state_def new_layer_def)
  have "negate_scalar two_step_state = [- 1, - 3]"
    by (simp add: negate_scalar_def two_step_state_def one_pixel_state_def new_layer_def
        upto.simps)
  with C7_sse_equals_scalar [OF exact_ext_reads_prefix, of two_step_state 0 "(empty_blob, empty_blob)"]
  show ?thesis unfolding h by simp
qed

section \<open>Frames of the loops\<close>

lemma fold_inv:
  assumes "\<And>k s. k \<in> set js \<Longrightarrow> I s \<Longrightarrow> I (F k s)" and "I s"
  shows "I (fold F js s)"
  using assms by (induction js arbitrary: s) simp_all

lemma fold_proj_outside:
  assumes "\<And>k s. k \<in> set js \<Longrightarrow> I s \<Longrightarrow> I (F k s)"
    and "\<And>k s. k \<in> set js \<Longrightarrow> I s \<Longrightarrow> proj (F k s) = proj s"
    and "I s"
  shows "proj (fold F js s) = proj s"
  using assms by (induction js arbitrary: s) simp_all

lemma fold_proj_inside:
  assumes inv: "\<And>k s. k \<in> set js \<Longrightarrow> I s \<Longrightarrow> I (F k s)"
    and wr: "\<And>s. I s \<Longrightarrow> proj (F i s) = v"
    and fr: "\<And>k s. k \<in> set js \<Longrightarrow> k \<noteq> i \<Longrightarrow> I s \<Longrightarrow> proj (F k s) = proj s"
    and "i \<in> set js" and "I s"
  shows "proj (fold F js s) = v"
  using assms(4,5) inv fr
proof (induction js arbitrary: s)
  case Nil
  then show ?case by simp
next
  case (Cons x xs)
  have Ix: "I (F x s)" using Cons.prems by simp
  show ?case
  proof (cases "i \<in> set xs")
    case True
    have "proj (fold F xs (F x s)) = v"
      by (rule Cons.IH) (use True Ix Cons.prems in auto)
    then show ?thesis by simp
  next
    case False
    with Cons.prems have xi: "x = i" by simp
    have "proj (fold F xs (F x s)) = proj (F x s)"
      by (rule fold_proj_outside [where I = I]) (use False Ix Cons.prems in auto)
    also have "\<dots> = v" using xi wr Cons.prems(2) by simp
    finally show ?thesis by simp
  qed
qed

lemma fold_blocks_pointwise:
  assumes len: "\<And>k a. length (F k a) = length a"
    and wr: "\<And>a. p < length a \<Longrightarrow> F j a ! p = g (a ! p)"
    and fr: "\<And>k a. k \<in> set js \<Longrightarrow> k \<noteq> j \<Longrightarrow> F k a ! p = a ! p"
    and "j \<in> set js" and "distinct js" and "p < length a"
  shows "fold F js a ! p = g (a ! p)"
  using assms(4-6) fr
proof (induction js arbitrary: a)
  case Nil
  then show ?case by simp
next
  case (Cons x xs)
  show ?case
  proof (cases "x = j")
    case True
    then have "j \<notin> set xs" using Cons.prems(2) by simp
    then have "fold F xs (F x a) ! p = F x a ! p"
      by (intro fold_nth_outside Cons.prems(4)) auto
    then show ?thesis using True wr Cons.prems(3) by simp
  next
    case False
    then have "fold F xs (F x a) ! p = g (F x a ! p)"
      using Cons.prems by (intro Cons.IH) (auto simp: len)
    then show ?thesis using False Cons.prems(4) by simp
  qed
qed

lemma fold_max_Max:
  "fold (\<lambda>j m. max m (f j)) js (m0::real) = Max (insert m0 (f ` set js))"
proof (induction js arbitrary: m0)
  case Nil
  then show ?case by simp
next
  case (Cons j js)
  show ?case
  proof (cases "js = []")
    case True
    then show ?thesis by (simp add: max.commute)
  next
    case False
    then have ne: "f ` set js \<noteq> {}" by simp
    have fin: "finite (f ` set js)" by simp
    have "Max (insert (max m0 (f j)) (f ` set js)) = max (max m0 (f j)) (Max (f ` set js))"
      by (rule Max_insert [OF fin ne])
    also have "\<dots> = max m0 (max (f j) (Max (f ` set js)))" by (simp add: max.assoc)
    also have "max (f j) (Max (f ` set js)) = Max (insert (f j) (f ` set js))"
      by (rule Max_insert [OF fin ne, symmetric])
    also have "max m0 (Max (insert (f j) (f ` set js))) = Max (insert m0 (insert (f j) (f ` set js)))"
      by (rule Max_insert [symmetric]) simp_all
    finally show ?thesis by (simp add: Cons.IH)
  qed
qed

lemma memset_zero_length [simp]: "length (memset_zero xs off n) = length xs"
  unfolding memset_zero_def by (rule fold_length_inv) simp

lemma memset_zero_nth:
  assumes "0 \<le> off" "off \<le> int p" "int p < off + n" "p < length xs"
  shows "memset_zero xs off n ! p = 0"
  unfolding memset_zero_def
proof (rule fold_nth_inside [where i = "int p"])
  show "int p \<in> set [off..off + n - 1]" using assms by simp
  show "p < length xs" by fact
next
  fix k and a :: buf assume "k \<in> set [off..off + n - 1]" "k \<noteq> int p"
  then have "nat k \<noteq> p" using assms(1) by auto
  then show "a[nat k := 0] ! p = a ! p" by simp
qed simp_all

lemma write_entries_length [simp]: "length (write_entries n f dst) = length dst"
  unfolding write_entries_def by (rule fold_length_inv) simp

lemma write_entries_nth:
  assumes "0 \<le> i" "i < n" "nat i < length dst"
  shows "write_entries n f dst ! nat i = f i"
  unfolding write_entries_def
proof (rule fold_nth_inside [where i = i])
  show "i \<in> set [0..n - 1]" using assms by simp
  show "nat i < length dst" by fact
next
  fix k and a :: buf assume "k \<in> set [0..n - 1]" "k \<noteq> i"
  then have "nat k \<noteq> nat i" using assms(1) by auto
  then show "a[nat k := f k] ! nat i = a ! nat i" by simp
qed simp_all

lemma caffe_div_length [simp]: "length (caffe_div n a b y_off y) = length y"
  unfolding caffe_div_def by (rule fold_length_inv) simp

lemma caffe_div_nth:
  assumes "0 \<le> i" "i < n" "0 \<le> y_off" "nat (y_off + i) < length y"
  shows "caffe_div n a b y_off y ! nat (y_off + i) = a i / b i"
  unfolding caffe_div_def
proof (rule fold_nth_inside [where i = i])
  show "i \<in> set [0..n - 1]" using assms by simp
  show "nat (y_off + i) < length y" by fact
next
  fix k and d :: buf assume "k \<in> set [0..n - 1]" "k \<noteq> i"
  then have "nat (y_off + k) \<noteq> nat (y_off + i)" using assms(1,3) by auto
  then show "d[nat (y_off + k) := a k / b k] ! nat (y_off + i) = d ! nat (y_off + i)" by simp
qed simp_all

lemma caffe_div_outside:
  assumes "\<forall>k. 0 \<le> k \<and> k < n \<longrightarrow> nat (y_off + k) \<noteq> p"
  shows "caffe_div n a b y_off y ! p = y ! p"
  unfolding caffe_div_def
  by (rule fold_nth_outside) (use assms in auto)

lemma index_bounds:
  assumes "0 \<le> i" "i < N" "0 \<le> j" "j < (M::int)"
  shows "0 \<le> i * M + j" and "i * M + j < N * M"
proof -
  have "i * M \<le> (N - 1) * M" using assms by (intro mult_right_mono) simp_all
  then show "i * M + j < N * M" using assms by (simp add: algebra_simps)
  have "0 \<le> i * M" using assms by simp
  then show "0 \<le> i * M + j" using assms by simp
qed

lemma out_index_bounds:
  assumes "0 \<le> c" "c < M" "0 \<le> h" "h < th" "0 \<le> w" "w < (tw::int)"
  shows "0 \<le> (c * th + h) * tw + w" and "(c * th + h) * tw + w < M * th * tw"
proof -
  note a = index_bounds [OF assms(1-4)]
  from index_bounds [OF a assms(5,6)]
  show "0 \<le> (c * th + h) * tw + w" and "(c * th + h) * tw + w < M * th * tw" by simp_all
qed

lemma out_index_unique:
  assumes "0 \<le> c" "0 \<le> c'" "0 \<le> h" "h < th" "0 \<le> h'" "h' < th"
    and "0 \<le> w" "w < tw" "0 \<le> w'" "w' < (tw::int)"
    and "(c * th + h) * tw + w = (c' * th + h') * tw + w'"
  shows "c = c' \<and> h = h' \<and> w = w'"
proof -
  have "0 \<le> c * th" "0 \<le> c' * th" using assms by simp_all
  then have n: "0 \<le> c * th + h" "0 \<le> c' * th + h'" using assms by simp_all
  from block_index_unique [OF n assms(7,8,9,10,11)]
  have e: "c * th + h = c' * th + h'" and w: "w = w'" by simp_all
  from block_index_unique [OF assms(1,2,3,4,5,6) e] w show ?thesis by simp
qed

section \<open>The decoder\<close>

lemma scan_invariant:
  fixes f :: "int \<Rightarrow> real"
  assumes "sorted_wrt (<) cs" and "\<forall>c \<in> set cs. \<forall>s \<in> S. s < c"
    and "imx \<in> S" and "mx = f imx" and "\<forall>s \<in> S. f s \<le> mx"
    and "\<forall>s \<in> S. s < imx \<longrightarrow> f s < mx"
    and "fold (\<lambda>c (mx, imx). if mx < f c then (f c, c) else (mx, imx)) cs (mx, imx) = (mx', imx')"
  shows "imx' \<in> S \<union> set cs \<and> mx' = f imx' \<and> (\<forall>s \<in> S \<union> set cs. f s \<le> mx')
       \<and> (\<forall>s \<in> S \<union> set cs. s < imx' \<longrightarrow> f s < mx')"
  using assms
proof (induction cs arbitrary: S mx imx)
  case Nil
  then show ?case by auto
next
  case (Cons c cs)
  show ?case
  proof (cases "mx < f c")
    case True
    have "imx' \<in> insert c S \<union> set cs \<and> mx' = f imx' \<and> (\<forall>s \<in> insert c S \<union> set cs. f s \<le> mx')
       \<and> (\<forall>s \<in> insert c S \<union> set cs. s < imx' \<longrightarrow> f s < mx')"
    proof (rule Cons.IH [where mx = "f c" and imx = c])
      show "sorted_wrt (<) cs" using Cons.prems(1) by simp
      show "\<forall>x \<in> set cs. \<forall>s \<in> insert c S. s < x" using Cons.prems(1,2) by auto
      show "\<forall>s \<in> insert c S. f s \<le> f c" using Cons.prems(5) True by auto
      show "\<forall>s \<in> insert c S. s < c \<longrightarrow> f s < f c" using Cons.prems(5) True by auto
      show "fold (\<lambda>c (mx, imx). if mx < f c then (f c, c) else (mx, imx)) cs (f c, c) = (mx', imx')"
        using Cons.prems(7) True by simp
    qed simp_all
    then show ?thesis by auto
  next
    case False
    have "imx' \<in> insert c S \<union> set cs \<and> mx' = f imx' \<and> (\<forall>s \<in> insert c S \<union> set cs. f s \<le> mx')
       \<and> (\<forall>s \<in> insert c S \<union> set cs. s < imx' \<longrightarrow> f s < mx')"
    proof (rule Cons.IH [where mx = mx and imx = imx])
      show "sorted_wrt (<) cs" using Cons.prems(1) by simp
      show "\<forall>x \<in> set cs. \<forall>s \<in> insert c S. s < x" using Cons.prems(1,2) by auto
      show "imx \<in> insert c S" using Cons.prems(3) by simp
      show "mx = f imx" by fact
      show "\<forall>s \<in> insert c S. f s \<le> mx" using Cons.prems(5) False by auto
      show "\<forall>s \<in> insert c S. s < imx \<longrightarrow> f s < mx"
        using Cons.prems(2,3,6) by force
      show "fold (\<lambda>c (mx, imx). if mx < f c then (f c, c) else (mx, imx)) cs (mx, imx) = (mx', imx')"
        using Cons.prems(7) False by simp
    qed
    then show ?thesis by auto
  qed
qed

lemma sorted_wrt_less_upto: "sorted_wrt (<) [i..j]"
  by (simp add: strict_sorted_iff)

lemma argmax_scan_first_max:
  assumes "0 < M"
  shows "0 \<le> argmax_scan f M \<and> argmax_scan f M < M
       \<and> (\<forall>c \<in> {0..M - 1}. f c \<le> f (argmax_scan f M))
       \<and> (\<forall>c \<in> {0..M - 1}. c < argmax_scan f M \<longrightarrow> f c < f (argmax_scan f M))"
proof -
  obtain mx' imx' where r:
    "fold (\<lambda>c (mx, imx). if mx < f c then (f c, c) else (mx, imx)) [1..M - 1] (f 0, 0) = (mx', imx')"
    by (cases "fold (\<lambda>c (mx, imx). if mx < f c then (f c, c) else (mx, imx)) [1..M - 1] (f 0, 0)")
  have s: "{0} \<union> set [1..M - 1] = {0..M - 1}" using assms by auto
  have "imx' \<in> {0} \<union> set [1..M - 1] \<and> mx' = f imx' \<and> (\<forall>s \<in> {0} \<union> set [1..M - 1]. f s \<le> mx')
       \<and> (\<forall>s \<in> {0} \<union> set [1..M - 1]. s < imx' \<longrightarrow> f s < mx')"
    by (rule scan_invariant [OF sorted_wrt_less_upto _ _ _ _ _ r]) auto
  then show ?thesis unfolding s by (auto simp: argmax_scan_def r)
qed

lemma ComputeMap_channel_fst:
  "fst (ComputeMap_channel st o_inf th tw h w c s)
     = (fst s)[nat (o_inf + ((c * th + h) * tw + w)) := current_m st ! nat ((h * W_m st + w) * M_m st + c)]"
  by (cases s) (simp add: ComputeMap_channel_def Let_def)

lemma ComputeMap_channel_snd:
  assumes "nat (o_inf + ((c * th + h) * tw + w)) < length (fst s)"
  shows "snd (ComputeMap_channel st o_inf th tw h w c s)
     = (case snd s of (mx, imx) \<Rightarrow>
          if mx < current_m st ! nat ((h * W_m st + w) * M_m st + c)
          then (current_m st ! nat ((h * W_m st + w) * M_m st + c), c) else (mx, imx))"
  using assms by (cases s) (simp add: ComputeMap_channel_def Let_def)

lemma channel_fold_length:
  "length (fst (fold (ComputeMap_channel st o_inf th tw h w) cs s)) = length (fst s)"
  by (induction cs arbitrary: s) (simp_all add: ComputeMap_channel_fst)

lemma channel_fold_outside:
  assumes "\<forall>c \<in> set cs. nat (o_inf + ((c * th + h) * tw + w)) \<noteq> p"
  shows "fst (fold (ComputeMap_channel st o_inf th tw h w) cs s) ! p = fst s ! p"
  using assms by (induction cs arbitrary: s) (simp_all add: ComputeMap_channel_fst)

lemma channel_fold_scan:
  assumes "\<forall>c \<in> set cs. nat (o_inf + ((c * th + h) * tw + w)) < length (fst s)"
  shows "snd (fold (ComputeMap_channel st o_inf th tw h w) cs s)
     = fold (\<lambda>c (mx, imx). if mx < current_m st ! nat ((h * W_m st + w) * M_m st + c)
                then (current_m st ! nat ((h * W_m st + w) * M_m st + c), c) else (mx, imx))
         cs (snd s)"
  using assms
proof (induction cs arbitrary: s)
  case Nil
  then show ?case by simp
next
  case (Cons c cs)
  have l: "length (fst (ComputeMap_channel st o_inf th tw h w c s)) = length (fst s)"
    by (simp add: ComputeMap_channel_fst)
  have "snd (fold (ComputeMap_channel st o_inf th tw h w) cs (ComputeMap_channel st o_inf th tw h w c s))
     = fold (\<lambda>c (mx, imx). if mx < current_m st ! nat ((h * W_m st + w) * M_m st + c)
                then (current_m st ! nat ((h * W_m st + w) * M_m st + c), c) else (mx, imx))
         cs (snd (ComputeMap_channel st o_inf th tw h w c s))"
    by (rule Cons.IH) (use Cons.prems l in simp)
  then show ?case using Cons.prems by (simp add: ComputeMap_channel_snd)
qed

lemma ComputeMap_pixel_snd:
  "snd (ComputeMap_pixel st o_inf o_map th tw h w s)
     = (snd s)[nat (o_map + (h * tw + w)) :=
         of_int (snd (snd (fold (ComputeMap_channel st o_inf th tw h w) [1..M_m st - 1]
           ((fst s)[nat (o_inf + (h * tw + w)) := current_m st ! nat ((h * W_m st + w) * M_m st)],
            (fst s)[nat (o_inf + (h * tw + w)) := current_m st ! nat ((h * W_m st + w) * M_m st)]
               ! nat (o_inf + (h * tw + w)), 0))))]"
  by (cases s) (simp add: ComputeMap_pixel_def Let_def)

lemma ComputeMap_pixel_fst:
  "fst (ComputeMap_pixel st o_inf o_map th tw h w s)
     = fst (fold (ComputeMap_channel st o_inf th tw h w) [1..M_m st - 1]
           ((fst s)[nat (o_inf + (h * tw + w)) := current_m st ! nat ((h * W_m st + w) * M_m st)],
            (fst s)[nat (o_inf + (h * tw + w)) := current_m st ! nat ((h * W_m st + w) * M_m st)]
               ! nat (o_inf + (h * tw + w)), 0))"
  by (cases s) (simp add: ComputeMap_pixel_def Let_def)

lemma ComputeMap_pixel_lengths [simp]:
  "length (fst (ComputeMap_pixel st o_inf o_map th tw h w s)) = length (fst s)"
  "length (snd (ComputeMap_pixel st o_inf o_map th tw h w s)) = length (snd s)"
  by (simp_all add: ComputeMap_pixel_fst ComputeMap_pixel_snd channel_fold_length)

lemma ComputeMap_pixel_label:
  assumes "\<forall>c \<in> {0..M_m st - 1}. nat (o_inf + ((c * th + h) * tw + w)) < length (fst s)"
    and "0 < M_m st" and "nat (o_map + (h * tw + w)) < length (snd s)"
  shows "snd (ComputeMap_pixel st o_inf o_map th tw h w s) ! nat (o_map + (h * tw + w))
     = of_int (argmax_scan (\<lambda>c. current_m st ! nat ((h * W_m st + w) * M_m st + c)) (M_m st))"
proof -
  let ?i0 = "nat (o_inf + (h * tw + w))"
  let ?f = "\<lambda>c. current_m st ! nat ((h * W_m st + w) * M_m st + c)"
  let ?inf1 = "(fst s)[?i0 := ?f 0]"
  have i0: "?i0 < length (fst s)" using assms(1,2) by (auto dest: bspec [where x = 0])
  have rb: "?inf1 ! ?i0 = ?f 0" using i0 by simp
  have "snd (fold (ComputeMap_channel st o_inf th tw h w) [1..M_m st - 1] (?inf1, ?inf1 ! ?i0, 0))
      = fold (\<lambda>c (mx, imx). if mx < ?f c then (?f c, c) else (mx, imx)) [1..M_m st - 1]
          (snd (?inf1, ?inf1 ! ?i0, 0))"
    by (rule channel_fold_scan) (use assms(1) in auto)
  then show ?thesis
    using assms(3) rb by (simp add: ComputeMap_pixel_snd argmax_scan_def)
qed

lemma ComputeMap_pixel_fst_outside:
  assumes "\<forall>c. 0 \<le> c \<longrightarrow> nat (o_inf + ((c * th + h) * tw + w)) \<noteq> p"
  shows "fst (ComputeMap_pixel st o_inf o_map th tw h w s) ! p = fst s ! p"
proof -
  have "nat (o_inf + (h * tw + w)) \<noteq> p" using assms [rule_format, of 0] by simp
  moreover have "\<forall>c \<in> set [1..M_m st - 1]. nat (o_inf + ((c * th + h) * tw + w)) \<noteq> p"
    using assms by simp
  ultimately show ?thesis
    by (simp add: ComputeMap_pixel_fst channel_fold_outside)
qed

lemma ComputeMap_pixel_snd_outside:
  assumes "nat (o_map + (h * tw + w)) \<noteq> q"
  shows "snd (ComputeMap_pixel st o_inf o_map th tw h w s) ! q = snd s ! q"
  using assms by (simp add: ComputeMap_pixel_snd)

lemma decode_loops_lengths:
  "length (fst (decode_loops st o_inf o_map th tw s)) = length (fst s)
   \<and> length (snd (decode_loops st o_inf o_map th tw s)) = length (snd s)"
  unfolding decode_loops_def
  by (rule fold_inv [where I = "\<lambda>r. length (fst r) = length (fst s) \<and> length (snd r) = length (snd s)"],
      rule fold_inv) simp_all

lemma decode_loops_fst_outside:
  assumes "\<forall>h w c. 0 \<le> h \<and> h < H_m st \<and> 0 \<le> w \<and> w < W_m st \<and> 0 \<le> c
             \<longrightarrow> nat (o_inf + ((c * th + h) * tw + w)) \<noteq> p"
  shows "fst (decode_loops st o_inf o_map th tw s) ! p = fst s ! p"
  unfolding decode_loops_def
proof (rule fold_proj_outside [where I = "\<lambda>_. True" and proj = "\<lambda>r. fst r ! p"])
  fix h and r :: "buf \<times> buf" assume h: "h \<in> set [0..H_m st - 1]"
  show "fst (fold (ComputeMap_pixel st o_inf o_map th tw h) [0..W_m st - 1] r) ! p = fst r ! p"
  proof (rule fold_proj_outside [where I = "\<lambda>_. True" and proj = "\<lambda>r. fst r ! p"])
    fix w and r' :: "buf \<times> buf" assume "w \<in> set [0..W_m st - 1]"
    with h assms show "fst (ComputeMap_pixel st o_inf o_map th tw h w r') ! p = fst r' ! p"
      by (intro ComputeMap_pixel_fst_outside) auto
  qed simp_all
qed simp_all

lemma decode_loops_snd_outside:
  assumes "\<forall>h w. 0 \<le> h \<and> h < H_m st \<and> 0 \<le> w \<and> w < W_m st
             \<longrightarrow> nat (o_map + (h * tw + w)) \<noteq> q"
  shows "snd (decode_loops st o_inf o_map th tw s) ! q = snd s ! q"
  unfolding decode_loops_def
proof (rule fold_proj_outside [where I = "\<lambda>_. True" and proj = "\<lambda>r. snd r ! q"])
  fix h and r :: "buf \<times> buf" assume h: "h \<in> set [0..H_m st - 1]"
  show "snd (fold (ComputeMap_pixel st o_inf o_map th tw h) [0..W_m st - 1] r) ! q = snd r ! q"
  proof (rule fold_proj_outside [where I = "\<lambda>_. True" and proj = "\<lambda>r. snd r ! q"])
    fix w and r' :: "buf \<times> buf" assume "w \<in> set [0..W_m st - 1]"
    with h assms show "snd (ComputeMap_pixel st o_inf o_map th tw h w r') ! q = snd r' ! q"
      by (intro ComputeMap_pixel_snd_outside) auto
  qed simp_all
qed simp_all

lemma decode_loops_label:
  assumes h0: "0 \<le> h0" "h0 < H_m st" and w0: "0 \<le> w0" "w0 < W_m st"
    and H: "H_m st \<le> th" and W: "W_m st \<le> tw" and M: "0 < M_m st"
    and o: "0 \<le> o_inf" "0 \<le> o_map"
    and linf: "o_inf + M_m st * th * tw \<le> int (length (fst s))"
    and lmap: "o_map + th * tw \<le> int (length (snd s))"
  shows "snd (decode_loops st o_inf o_map th tw s) ! nat (o_map + (h0 * tw + w0))
     = of_int (argmax_scan (\<lambda>c. current_m st ! nat ((h0 * W_m st + w0) * M_m st + c)) (M_m st))"
  unfolding decode_loops_def
proof (rule fold_proj_inside [where i = h0
      and I = "\<lambda>r. length (fst r) = length (fst s) \<and> length (snd r) = length (snd s)"
      and proj = "\<lambda>r. snd r ! nat (o_map + (h0 * tw + w0))"])
  let ?I = "\<lambda>r :: buf \<times> buf. length (fst r) = length (fst s) \<and> length (snd r) = length (snd s)"
  let ?q = "nat (o_map + (h0 * tw + w0))"
  show "h0 \<in> set [0..H_m st - 1]" using h0 by simp
  show "?I s" by simp
  have q0: "0 \<le> h0 * tw + w0" "h0 * tw + w0 < th * tw"
    using index_bounds [of h0 th w0 tw] h0 w0 H W by simp_all
  {
    fix h r assume "h \<in> set [0..H_m st - 1]" "?I r"
    then show "?I (fold (ComputeMap_pixel st o_inf o_map th tw h) [0..W_m st - 1] r)"
      by (intro fold_inv [where I = ?I]) simp_all
  next
    fix r assume Ir: "?I r"
    show "snd (fold (ComputeMap_pixel st o_inf o_map th tw h0) [0..W_m st - 1] r) ! ?q
        = of_int (argmax_scan (\<lambda>c. current_m st ! nat ((h0 * W_m st + w0) * M_m st + c)) (M_m st))"
    proof (rule fold_proj_inside [where i = w0 and I = ?I and proj = "\<lambda>r. snd r ! ?q"])
      show "w0 \<in> set [0..W_m st - 1]" using w0 by simp
      show "?I r" by fact
    next
      fix w r' assume "w \<in> set [0..W_m st - 1]" "?I r'"
      then show "?I (ComputeMap_pixel st o_inf o_map th tw h0 w r')" by simp
    next
      fix r' assume Ir': "?I r'"
      show "snd (ComputeMap_pixel st o_inf o_map th tw h0 w0 r') ! ?q
        = of_int (argmax_scan (\<lambda>c. current_m st ! nat ((h0 * W_m st + w0) * M_m st + c)) (M_m st))"
      proof (rule ComputeMap_pixel_label [OF _ M])
        show "\<forall>c \<in> {0..M_m st - 1}. nat (o_inf + ((c * th + h0) * tw + w0)) < length (fst r')"
        proof
          fix c assume "c \<in> {0..M_m st - 1}"
          then have c: "0 \<le> c" "c < M_m st" by simp_all
          from out_index_bounds [OF c, of h0 th w0 tw] h0 w0 H W
          have "0 \<le> (c * th + h0) * tw + w0" "(c * th + h0) * tw + w0 < M_m st * th * tw"
            by simp_all
          then show "nat (o_inf + ((c * th + h0) * tw + w0)) < length (fst r')"
            using o linf Ir' by linarith
        qed
        show "?q < length (snd r')" using q0 o lmap Ir' by linarith
      qed
    next
      fix w r' assume w: "w \<in> set [0..W_m st - 1]" "w \<noteq> w0"
      then have "0 \<le> w" by simp
      then have "0 \<le> h0 * tw + w" using h0 H W w0 by simp
      then have "nat (o_map + (h0 * tw + w)) \<noteq> ?q" using w(2) q0 o by linarith
      then show "snd (ComputeMap_pixel st o_inf o_map th tw h0 w r') ! ?q = snd r' ! ?q"
        by (rule ComputeMap_pixel_snd_outside)
    qed
  next
    fix h r assume h: "h \<in> set [0..H_m st - 1]" "h \<noteq> h0"
    show "snd (fold (ComputeMap_pixel st o_inf o_map th tw h) [0..W_m st - 1] r) ! ?q = snd r ! ?q"
    proof (rule fold_proj_outside [where I = "\<lambda>_. True" and proj = "\<lambda>r. snd r ! ?q"])
      fix w and r' :: "buf \<times> buf" assume "w \<in> set [0..W_m st - 1]"
      then have w: "0 \<le> w" "w < tw" using W by simp_all
      have hh: "0 \<le> h" using h by simp
      have "h * tw + w \<noteq> h0 * tw + w0"
        using block_index_unique [OF hh h0(1) w _ _ ] w0 W h(2) by auto
      moreover have "0 \<le> h * tw + w" using hh w by simp
      ultimately have "nat (o_map + (h * tw + w)) \<noteq> ?q" using q0 o by linarith
      then show "snd (ComputeMap_pixel st o_inf o_map th tw h w r') ! ?q = snd r' ! ?q"
        by (rule ComputeMap_pixel_snd_outside)
    qed simp_all
  }
qed

lemma RunInference_frame:
  assumes "\<And>s x. g (s\<lparr>current_m := x\<rparr>) = g s" "\<And>s x. g (s\<lparr>next_m := x\<rparr>) = g s"
    "\<And>s x. g (s\<lparr>tmp_m := x\<rparr>) = g s"
  shows "g (RunInference ext sse st) = g st"
proof -
  have step: "g (StepInference ext sse s) = g s" for s
    by (simp add: StepInference_def Let_def assms)
  have "g ((StepInference ext sse ^^ k) s) = g s" for k s
    by (induction k) (simp_all add: step)
  then show ?thesis by (simp add: RunInference_funpow StartInference_def assms)
qed

lemma RunInference_dims [simp]:
  "H_m (RunInference ext sse st) = H_m st" "W_m (RunInference ext sse st) = W_m st"
  "M_m (RunInference ext sse st) = M_m st"
  by (rule RunInference_frame; simp)+

lemma ComputeMap_InrD:
  assumes "ComputeMap ext sse n tops st = Inr (st', tops')"
  shows "st' = RunInference ext sse st"
    and "channels (fst tops) = M_m st" "height (fst tops) = pad_height_m st"
      "width (fst tops) = pad_width_m st"
    and "tops' =
      ((fst tops)\<lparr>data := fst (decode_loops st' (offset (fst tops) n) (offset (snd tops) n)
           (pad_height_m st) (pad_width_m st)
           (memset_zero (data (fst tops)) (offset (fst tops) n)
              (M_m st * pad_height_m st * pad_width_m st),
            memset_zero (data (snd tops)) (offset (snd tops) n)
              (pad_height_m st * pad_width_m st)))\<rparr>,
       (snd tops)\<lparr>data := snd (decode_loops st' (offset (fst tops) n) (offset (snd tops) n)
           (pad_height_m st) (pad_width_m st)
           (memset_zero (data (fst tops)) (offset (fst tops) n)
              (M_m st * pad_height_m st * pad_width_m st),
            memset_zero (data (snd tops)) (offset (snd tops) n)
              (pad_height_m st * pad_width_m st)))\<rparr>)"
  using assms
  by (auto simp: ComputeMap_def Let_def decode_loops_def split: if_splits)

lemma ComputeMap_succeeds:
  assumes "channels (fst tops) = M_m st" "height (fst tops) = pad_height_m st"
    "width (fst tops) = pad_width_m st"
  shows "\<exists>r. ComputeMap ext sse n tops st = Inr r"
  using assms by (simp add: ComputeMap_def Let_def)

lemma region_bounds:
  assumes sh: "tops_shaped st tops" and n: "0 \<le> n" "n < num_m st"
  shows "0 \<le> offset (fst tops) n"
    and "offset (fst tops) n + M_m st * pad_height_m st * pad_width_m st
           \<le> int (length (data (fst tops)))"
    and "0 \<le> offset (snd tops) n"
    and "offset (snd tops) n + pad_height_m st * pad_width_m st
           \<le> int (length (data (snd tops)))"
proof -
  let ?X = "M_m st * pad_height_m st * pad_width_m st"
  let ?Y = "pad_height_m st * pad_width_m st"
  have Y: "0 \<le> ?Y" using sh by (simp add: tops_shaped_def)
  have X: "0 \<le> ?X" using sh by (simp add: tops_shaped_def)
  have o1: "offset (fst tops) n = n * ?X" "count (fst tops) = num_m st * ?X"
    using sh by (simp_all add: tops_shaped_def offset_def count_def)
  have o2: "offset (snd tops) n = n * ?Y" "count (snd tops) = num_m st * ?Y"
    using sh by (simp_all add: tops_shaped_def offset_def count_def)
  show "0 \<le> offset (fst tops) n" unfolding o1 using n X by simp
  show "0 \<le> offset (snd tops) n" unfolding o2 using n Y by simp
  have l: "count (fst tops) \<le> int (length (data (fst tops)))"
    "count (snd tops) \<le> int (length (data (snd tops)))"
    using sh by (simp_all add: tops_shaped_def)
  have "(n + 1) * ?X \<le> num_m st * ?X" using n X by (intro mult_right_mono) simp_all
  then have "n * ?X + ?X \<le> num_m st * ?X" by (simp add: algebra_simps)
  with l(1) show "offset (fst tops) n + ?X \<le> int (length (data (fst tops)))"
    unfolding o1 by linarith
  have "(n + 1) * ?Y \<le> num_m st * ?Y" using n Y by (intro mult_right_mono) simp_all
  then have "n * ?Y + ?Y \<le> num_m st * ?Y" by (simp add: algebra_simps)
  with l(2) show "offset (snd tops) n + ?Y \<le> int (length (data (snd tops)))"
    unfolding o2 by linarith
qed

lemma ComputeMap_zero_outside:
  assumes cm: "ComputeMap ext sse n tops st = Inr (st', tops')"
    and sh: "tops_shaped st tops" and n: "0 \<le> n" "n < num_m st"
    and H: "H_m st \<le> pad_height_m st" and W: "W_m st \<le> pad_width_m st"
    and h: "0 \<le> h" "h < pad_height_m st" and w: "0 \<le> w" "w < pad_width_m st"
    and out: "\<not> (h < H_m st \<and> w < W_m st)"
  shows "0 \<le> c \<Longrightarrow> c < M_m st \<Longrightarrow>
      data (fst tops') ! nat (offset (fst tops) n + ((c * pad_height_m st + h) * pad_width_m st + w)) = 0"
    and "data (snd tops') ! nat (offset (snd tops) n + (h * pad_width_m st + w)) = 0"
proof -
  note d = ComputeMap_InrD [OF cm]
  note rb = region_bounds [OF sh n]
  let ?th = "pad_height_m st" and ?tw = "pad_width_m st"
  let ?oi = "offset (fst tops) n" and ?om = "offset (snd tops) n"
  have dims: "H_m st' = H_m st" "W_m st' = W_m st" unfolding d(1) by simp_all
  {
    assume c: "0 \<le> c" "c < M_m st"
    let ?p = "nat (?oi + ((c * ?th + h) * ?tw + w))"
    note b = out_index_bounds [OF c h w]
    have fr: "\<forall>h2 w2 c2. 0 \<le> h2 \<and> h2 < H_m st' \<and> 0 \<le> w2 \<and> w2 < W_m st' \<and> 0 \<le> c2
             \<longrightarrow> nat (?oi + ((c2 * ?th + h2) * ?tw + w2)) \<noteq> ?p"
    proof (intro allI impI notI)
      fix h2 w2 c2
      assume a: "0 \<le> h2 \<and> h2 < H_m st' \<and> 0 \<le> w2 \<and> w2 < W_m st' \<and> 0 \<le> c2"
        and e: "nat (?oi + ((c2 * ?th + h2) * ?tw + w2)) = ?p"
      have "0 \<le> c2 * ?th" using a h by simp
      then have "0 \<le> c2 * ?th + h2" using a by simp
      then have "0 \<le> (c2 * ?th + h2) * ?tw" using w by simp
      then have "0 \<le> (c2 * ?th + h2) * ?tw + w2" using a by simp
      with e b(1) rb(1) have "(c2 * ?th + h2) * ?tw + w2 = (c * ?th + h) * ?tw + w" by linarith
      from out_index_unique [OF _ _ _ _ _ _ _ _ _ _ this] a c h w H W dims
      have "h2 = h \<and> w2 = w" by simp
      with a out dims show False by simp
    qed
    have "data (fst tops') ! ?p
        = memset_zero (data (fst tops)) ?oi (M_m st * ?th * ?tw) ! ?p"
      unfolding d(5) using decode_loops_fst_outside [OF fr] by simp
    also have "\<dots> = 0"
      by (rule memset_zero_nth) (use rb b in linarith)+
    finally show "data (fst tops') ! ?p = 0" .
  }
  let ?q = "nat (?om + (h * ?tw + w))"
  note b = index_bounds [OF h w]
  have fr: "\<forall>h2 w2. 0 \<le> h2 \<and> h2 < H_m st' \<and> 0 \<le> w2 \<and> w2 < W_m st'
             \<longrightarrow> nat (?om + (h2 * ?tw + w2)) \<noteq> ?q"
  proof (intro allI impI notI)
    fix h2 w2
    assume a: "0 \<le> h2 \<and> h2 < H_m st' \<and> 0 \<le> w2 \<and> w2 < W_m st'"
      and e: "nat (?om + (h2 * ?tw + w2)) = ?q"
    have "0 \<le> h2 * ?tw" using a w by simp
    then have "0 \<le> h2 * ?tw + w2" using a by simp
    with e b(1) rb(3) have "h2 * ?tw + w2 = h * ?tw + w" by linarith
    from block_index_unique [OF _ _ _ _ _ _ this] a h w W dims
    have "h2 = h \<and> w2 = w" by simp
    with a out dims show False by simp
  qed
  have "data (snd tops') ! ?q = memset_zero (data (snd tops)) ?om (?th * ?tw) ! ?q"
    unfolding d(5) using decode_loops_snd_outside [OF fr] by simp
  also have "\<dots> = 0"
    by (rule memset_zero_nth) (use rb b in linarith)+
  finally show "data (snd tops') ! ?q = 0" .
qed

lemma ComputeMap_label:
  assumes cm: "ComputeMap ext sse n tops st = Inr (st', tops')"
    and sh: "tops_shaped st tops" and n: "0 \<le> n" "n < num_m st"
    and M: "0 < M_m st"
    and H: "H_m st \<le> pad_height_m st" and W: "W_m st \<le> pad_width_m st"
    and h: "0 \<le> h" "h < H_m st" and w: "0 \<le> w" "w < W_m st"
  shows "data (snd tops') ! nat (offset (snd tops) n + (h * pad_width_m st + w))
       = of_int (argmax_scan (\<lambda>c. current_m st' ! nat ((h * W_m st + w) * M_m st + c)) (M_m st))"
proof -
  note d = ComputeMap_InrD [OF cm]
  note rb = region_bounds [OF sh n]
  have dims: "H_m st' = H_m st" "W_m st' = W_m st" "M_m st' = M_m st"
    unfolding d(1) by simp_all
  have "snd (decode_loops st' (offset (fst tops) n) (offset (snd tops) n)
           (pad_height_m st) (pad_width_m st)
           (memset_zero (data (fst tops)) (offset (fst tops) n)
              (M_m st * pad_height_m st * pad_width_m st),
            memset_zero (data (snd tops)) (offset (snd tops) n)
              (pad_height_m st * pad_width_m st)))
          ! nat (offset (snd tops) n + (h * pad_width_m st + w))
      = of_int (argmax_scan (\<lambda>c. current_m st' ! nat ((h * W_m st' + w) * M_m st' + c)) (M_m st'))"
    by (rule decode_loops_label) (use h w H W M rb dims in simp_all)
  then show ?thesis unfolding d(5) dims by simp
qed

section \<open>Frames and shapes of the operations\<close>

lemma pairwise_fold_frame:
  assumes "\<And>s x. g (s\<lparr>pairwise_m := x\<rparr>) = g s"
  shows "g (fold (\<lambda>k s. s\<lparr>pairwise_m := pairwise_m s @ [f s k]\<rparr>) ks s) = g s"
  by (induction ks arbitrary: s) (simp_all add: assms)

lemma SetupPairwise_frame:
  assumes g: "\<And>s x. g (s\<lparr>pairwise_m := x\<rparr>) = g s"
    and r: "SetupPairwiseFunctions bottom st = Inr st'"
  shows "g st' = g st"
  using r
  by (auto simp: SetupPairwiseFunctions_def Let_def ClearPairwiseFunctions_def
      pairwise_fold_frame [of g, OF g] g split: if_splits sum.splits)

lemma SetupUnaryEnergy_frame:
  assumes "\<And>s x. g (s\<lparr>scale_m := x\<rparr>) = g s" "\<And>s x. g (s\<lparr>norm_data_m := x\<rparr>) = g s"
    "\<And>s x. g (s\<lparr>unary_m := x\<rparr>) = g s"
  shows "g (SetupUnaryEnergy buf off st) = g st"
  by (simp add: SetupUnaryEnergy_def Let_def assms)

lemma has_image_SetupUnaryEnergy [simp]:
  "has_image (SetupUnaryEnergy buf off st) = has_image st"
  by (rule SetupUnaryEnergy_frame; simp)

lemma SetupUnaryEnergy_unary_length [simp]:
  "length (unary_m (SetupUnaryEnergy buf off st)) = length (unary_m st)"
  unfolding SetupUnaryEnergy_def Let_def
  by (simp, rule fold_length_inv, rule fold_length_inv, rule fold_length_inv, simp)

lemma SetupPairwise_succeeds:
  assumes "has_image st \<longrightarrow> 3 \<le> length bottom"
  shows "\<exists>st'. SetupPairwiseFunctions bottom st = Inr st'"
  using assms
  by (auto simp: SetupPairwiseFunctions_def Let_def pairwise_fold_has_image
      ClearPairwiseFunctions_def bottom_at_def)

lemma blob_Reshape_fields [simp]:
  "num (blob_Reshape b n c h w) = n" "channels (blob_Reshape b n c h w) = c"
  "height (blob_Reshape b n c h w) = h" "width (blob_Reshape b n c h w) = w"
  "count (blob_Reshape b n c h w) \<le> int (length (data (blob_Reshape b n c h w)))"
  by (simp_all add: blob_Reshape_def count_def)

lemma Reshape_InrD:
  assumes "Reshape bottom tops0 st0 = Inr (st, tops)"
  shows "3 \<le> length bottom"
    and "has_image st = has_image st0"
    and "num_m st = num (bottom ! 0)" "M_m st = channels (bottom ! 0)"
      "pad_height_m st = height (bottom ! 0)" "pad_width_m st = width (bottom ! 0)"
    and "num (fst tops) = num_m st" "channels (fst tops) = M_m st"
      "height (fst tops) = pad_height_m st" "width (fst tops) = pad_width_m st"
    and "num (snd tops) = num_m st" "channels (snd tops) = 1"
      "height (snd tops) = pad_height_m st" "width (snd tops) = pad_width_m st"
    and "count (fst tops) \<le> int (length (data (fst tops)))"
      "count (snd tops) \<le> int (length (data (snd tops)))"
    and "pad_height_m st * pad_width_m st * M_m st \<le> unary_element_m st"
  using assms
  by (auto simp: Reshape_def bottom_at_def Let_def AllocateAllData_def DeAllocateAllData_def
      split: if_splits sum.splits)

lemma Reshape_tops_shaped:
  assumes "Reshape bottom tops0 st0 = Inr (st, tops)"
    and "0 \<le> channels (bottom ! 0)" "0 \<le> height (bottom ! 0)" "0 \<le> width (bottom ! 0)"
  shows "tops_shaped st tops"
  unfolding tops_shaped_def using Reshape_InrD [OF assms(1)] assms(2-4) by simp

lemma set_active_region_fields [simp]:
  "M_m (set_active_region rh rw st) = M_m st"
  "pad_height_m (set_active_region rh rw st) = pad_height_m st"
  "pad_width_m (set_active_region rh rw st) = pad_width_m st"
  "num_m (set_active_region rh rw st) = num_m st"
  "has_image (set_active_region rh rw st) = has_image st"
  "map_element_m (set_active_region rh rw st) = map_element_m st"
  "unary_element_m (set_active_region rh rw st) = unary_element_m st"
  "alloc_count (set_active_region rh rw st) = alloc_count st"
  "unary_m (set_active_region rh rw st) = unary_m st"
  "current_m (set_active_region rh rw st) = current_m st"
  by (simp_all add: set_active_region_def)

lemma set_active_region_inside:
  assumes "rh < pad_height_m st \<or> rw < pad_width_m st"
  shows "H_m (set_active_region rh rw st) = rh" "W_m (set_active_region rh rw st) = rw"
    "N_m (set_active_region rh rw st) = rw * rh"
  using assms by (auto simp: set_active_region_def)

lemma set_active_region_N:
  assumes "rh \<le> pad_height_m st" "rw \<le> pad_width_m st"
  shows "N_m (set_active_region rh rw st) = rh * rw"
  using assms by (auto simp: set_active_region_def)

lemma tops_shaped_cong:
  assumes "tops_shaped st tops" "num_m st' = num_m st" "M_m st' = M_m st"
    "pad_height_m st' = pad_height_m st" "pad_width_m st' = pad_width_m st"
  shows "tops_shaped st' tops"
  using assms by (simp add: tops_shaped_def)

lemma ClearPairwise_fields [simp]:
  "H_m (ClearPairwiseFunctions s) = H_m s" "W_m (ClearPairwiseFunctions s) = W_m s"
  "M_m (ClearPairwiseFunctions s) = M_m s" "current_m (ClearPairwiseFunctions s) = current_m s"
  by (simp_all add: ClearPairwiseFunctions_def)

section \<open>The unary energy and its layout\<close>

lemma max_loop_inner:
  fixes bd :: "int \<Rightarrow> real"
  assumes "0 \<le> k" "k < sd" "nat k < length sc"
  shows "fold (\<lambda>k sc. sc[nat k := max (sc ! nat k) (bd (j * sd + k))]) [0..sd - 1] sc ! nat k
       = max (sc ! nat k) (bd (j * sd + k))"
proof (rule fold_blocks_pointwise [where j = k and g = "\<lambda>x. max x (bd (j * sd + k))"])
  show "k \<in> set [0..sd - 1]" using assms by simp
  show "distinct [0..sd - 1]" by simp
  show "nat k < length sc" by fact
next
  fix k' and a :: buf assume "k' \<in> set [0..sd - 1]" "k' \<noteq> k"
  then have "nat k' \<noteq> nat k" using assms(1) by auto
  then show "a[nat k' := max (a ! nat k') (bd (j * sd + k'))] ! nat k = a ! nat k" by simp
qed simp_all

lemma max_loop_inner_length:
  fixes bd :: "int \<Rightarrow> real"
  shows "length (fold (\<lambda>k sc. sc[nat k := max (sc ! nat k) (bd (j * sd + k))]) ks sc) = length sc"
  by (rule fold_length_inv) simp

lemma max_loop_nth:
  fixes bd :: "int \<Rightarrow> real"
  assumes "0 \<le> k" "k < sd" "nat k < length sc"
  shows "fold (\<lambda>j. fold (\<lambda>k sc. sc[nat k := max (sc ! nat k) (bd (j * sd + k))]) [0..sd - 1])
           js sc ! nat k
       = fold (\<lambda>j m. max m (bd (j * sd + k))) js (sc ! nat k)"
  using assms(3)
proof (induction js arbitrary: sc)
  case Nil
  then show ?case by simp
next
  case (Cons j js)
  let ?sc1 = "fold (\<lambda>k sc. sc[nat k := max (sc ! nat k) (bd (j * sd + k))]) [0..sd - 1] sc"
  have l: "nat k < length ?sc1" using Cons.prems by (simp add: max_loop_inner_length)
  have "?sc1 ! nat k = max (sc ! nat k) (bd (j * sd + k))"
    by (rule max_loop_inner [OF assms(1,2) Cons.prems])
  with Cons.IH [OF l] show ?case by simp
qed

lemma max_loop_length:
  fixes bd :: "int \<Rightarrow> real"
  shows "length (fold (\<lambda>j. fold (\<lambda>k sc. sc[nat k := max (sc ! nat k) (bd (j * sd + k))]) [0..sd - 1])
     js sc) = length sc"
  by (rule fold_length_inv) (rule max_loop_inner_length)

lemma div_loop_length:
  "length (fold (\<lambda>j nd. caffe_div sd (\<lambda>i. nd ! nat (j * sd + i)) b (j * sd) nd) js nd)
     = length nd"
  by (rule fold_length_inv) simp

lemma div_loop_nth:
  assumes "0 \<le> c" "c < M" "0 \<le> k" "k < sd" "nat (c * sd + k) < length nd"
  shows "fold (\<lambda>j nd. caffe_div sd (\<lambda>i. nd ! nat (j * sd + i)) b (j * sd) nd) [0..M - 1] nd
           ! nat (c * sd + k)
       = nd ! nat (c * sd + k) / b k"
proof (rule fold_blocks_pointwise [where j = c and g = "\<lambda>x. x / b k"])
  show "c \<in> set [0..M - 1]" using assms by simp
  show "distinct [0..M - 1]" by simp
  show "nat (c * sd + k) < length nd" by fact
next
  fix a :: buf assume "nat (c * sd + k) < length a"
  moreover have "0 \<le> c * sd" using assms by simp
  ultimately show "caffe_div sd (\<lambda>i. a ! nat (c * sd + i)) b (c * sd) a ! nat (c * sd + k)
      = a ! nat (c * sd + k) / b k"
    using assms by (simp add: caffe_div_nth)
next
  fix j and a :: buf assume j: "j \<in> set [0..M - 1]" "j \<noteq> c"
  show "caffe_div sd (\<lambda>i. a ! nat (j * sd + i)) b (j * sd) a ! nat (c * sd + k)
      = a ! nat (c * sd + k)"
  proof (rule caffe_div_outside, intro allI impI notI)
    fix k' assume k': "0 \<le> k' \<and> k' < sd" and e: "nat (j * sd + k') = nat (c * sd + k)"
    have "0 \<le> j" using j by simp
    then have "0 \<le> j * sd" "0 \<le> c * sd" using assms by simp_all
    with e k' assms have "j * sd + k' = c * sd + k" by linarith
    from block_index_unique [OF \<open>0 \<le> j\<close> assms(1) _ _ assms(3,4) this] k' j(2)
    show False by simp
  qed
qed simp

lemma crop_loop_nth:
  fixes nd u :: buf
  assumes c: "0 \<le> c" "c < M" and h: "0 \<le> h" "h < H" and w: "0 \<le> w" "w < W"
    and W: "W \<le> pw" and l: "nat ((h * pw + w) * M + c) < length u"
  shows "fold (\<lambda>c. fold (\<lambda>h. fold (\<lambda>w u.
              u[nat ((h * pw + w) * M + c) := - ln (nd ! nat ((c * ph + h) * pw + w))])
            [0..W - 1]) [0..H - 1]) [0..M - 1] u ! nat ((h * pw + w) * M + c)
       = - ln (nd ! nat ((c * ph + h) * pw + w))"
proof -
  let ?p = "nat ((h * pw + w) * M + c)"
  let ?I = "\<lambda>r :: buf. length r = length u"
  have hw: "0 \<le> h * pw + w" using h w W by simp
  have ne: "nat ((h2 * pw + w2) * M + c2) \<noteq> ?p"
    if "0 \<le> c2" "c2 < M" "0 \<le> h2" "0 \<le> w2" "w2 < W" "(c2, h2, w2) \<noteq> (c, h, w)" for c2 h2 w2
  proof
    assume e: "nat ((h2 * pw + w2) * M + c2) = ?p"
    have hw2: "0 \<le> h2 * pw + w2" using that W w by simp
    then have "0 \<le> (h2 * pw + w2) * M" "0 \<le> (h * pw + w) * M" using c hw by simp_all
    with e that c have "(h2 * pw + w2) * M + c2 = (h * pw + w) * M + c" by linarith
    from block_index_unique [OF hw2 hw that(1,2) c this]
    have e2: "h2 * pw + w2 = h * pw + w" and cc: "c2 = c" by simp_all
    from block_index_unique [OF that(3) h(1) that(4) _ w(1) _ e2] that(5) w W
    have "h2 = h \<and> w2 = w" by simp
    with cc that(6) show False by simp
  qed
  show ?thesis
  proof (rule fold_proj_inside [where i = c and I = ?I and proj = "\<lambda>r. r ! ?p"])
    show "c \<in> set [0..M - 1]" using c by simp
    show "?I u" by simp
  next
    fix c2 and r :: buf assume "?I r"
    then show "?I (fold (\<lambda>h. fold (\<lambda>w u.
              u[nat ((h * pw + w) * M + c2) := - ln (nd ! nat ((c2 * ph + h) * pw + w))])
            [0..W - 1]) [0..H - 1] r)"
      by (simp add: fold_length_inv)
  next
    fix r :: buf assume Ir: "?I r"
    show "fold (\<lambda>h. fold (\<lambda>w u.
              u[nat ((h * pw + w) * M + c) := - ln (nd ! nat ((c * ph + h) * pw + w))])
            [0..W - 1]) [0..H - 1] r ! ?p = - ln (nd ! nat ((c * ph + h) * pw + w))"
    proof (rule fold_proj_inside [where i = h and I = ?I and proj = "\<lambda>r. r ! ?p"])
      show "h \<in> set [0..H - 1]" using h by simp
      show "?I r" by fact
    next
      fix h2 and r' :: buf assume "?I r'"
      then show "?I (fold (\<lambda>w u.
              u[nat ((h2 * pw + w) * M + c) := - ln (nd ! nat ((c * ph + h2) * pw + w))])
            [0..W - 1] r')"
        by (simp add: fold_length_inv)
    next
      fix r' :: buf assume Ir': "?I r'"
      show "fold (\<lambda>w u.
              u[nat ((h * pw + w) * M + c) := - ln (nd ! nat ((c * ph + h) * pw + w))])
            [0..W - 1] r' ! ?p = - ln (nd ! nat ((c * ph + h) * pw + w))"
      proof (rule fold_nth_inside [where i = w])
        show "w \<in> set [0..W - 1]" using w by simp
        show "?p < length r'" using l Ir' by simp
      next
        fix w2 and a :: buf assume "w2 \<in> set [0..W - 1]" "w2 \<noteq> w"
        then have "nat ((h * pw + w2) * M + c) \<noteq> ?p" using c h by (intro ne) simp_all
        then show "a[nat ((h * pw + w2) * M + c) := - ln (nd ! nat ((c * ph + h) * pw + w2))] ! ?p
            = a ! ?p" by simp
      qed simp_all
    next
      fix h2 and r' :: buf assume h2: "h2 \<in> set [0..H - 1]" "h2 \<noteq> h"
      show "fold (\<lambda>w u.
              u[nat ((h2 * pw + w) * M + c) := - ln (nd ! nat ((c * ph + h2) * pw + w))])
            [0..W - 1] r' ! ?p = r' ! ?p"
      proof (rule fold_nth_outside)
        fix w2 and a :: buf assume "w2 \<in> set [0..W - 1]"
        then have "nat ((h2 * pw + w2) * M + c) \<noteq> ?p" using c h2 by (intro ne) simp_all
        then show "a[nat ((h2 * pw + w2) * M + c) := - ln (nd ! nat ((c * ph + h2) * pw + w2))] ! ?p
            = a ! ?p" by simp
      qed
    qed
  next
    fix c2 and r :: buf assume c2: "c2 \<in> set [0..M - 1]" "c2 \<noteq> c"
    show "fold (\<lambda>h. fold (\<lambda>w u.
              u[nat ((h * pw + w) * M + c2) := - ln (nd ! nat ((c2 * ph + h) * pw + w))])
            [0..W - 1]) [0..H - 1] r ! ?p = r ! ?p"
    proof (rule fold_nth_outside, rule fold_nth_outside)
      fix h2 w2 and a :: buf assume "h2 \<in> set [0..H - 1]" "w2 \<in> set [0..W - 1]"
      then have "nat ((h2 * pw + w2) * M + c2) \<noteq> ?p" using c2 by (intro ne) simp_all
      then show "a[nat ((h2 * pw + w2) * M + c2) := - ln (nd ! nat ((c2 * ph + h2) * pw + w2))] ! ?p
          = a ! ?p" by simp
    qed
  qed
qed

text \<open>
  Where the writer puts the energy of an active pixel: class \<open>c\<close> of pixel \<open>(h, w)\<close> goes to
  index \<open>(h * pad_width_ + w) * M_ + c\<close>, a row stride of the padded width.
\<close>

lemma SetupUnaryEnergy_writes:
  assumes rd: "unary_ready st"
    and c: "0 \<le> c" "c < M_m st"
    and h: "0 \<le> h" "h < H_m st" "H_m st \<le> pad_height_m st"
    and w: "0 \<le> w" "w < W_m st" "W_m st \<le> pad_width_m st"
  shows "unary_m (SetupUnaryEnergy buf off st) ! nat ((h * pad_width_m st + w) * M_m st + c)
       = - ln (softmax exp
            (map (\<lambda>j. buf ! nat (off + ((j * pad_height_m st + h) * pad_width_m st + w)))
               [0..M_m st - 1]) ! nat c)"
proof -
  define M where "M = M_m st"
  define ph where "ph = pad_height_m st"
  define pw where "pw = pad_width_m st"
  define sd where "sd = ph * pw"
  define k where "k = h * pw + w"
  define bd where "bd = (\<lambda>i. buf ! nat (off + i))"
  define ones where "ones = data (sum_multiplier_m st)"
  define f where "f = (\<lambda>j. bd (j * sd + k))"
  define norm0 where "norm0 = caffe_copy (sd * M) bd (data (norm_data_m st))"
  define scale0 where "scale0 = caffe_copy sd bd (data (scale_m st))"
  define scale1 where "scale1 =
    fold (\<lambda>j. fold (\<lambda>k sc. sc[nat k := max (sc ! nat k) (bd (j * sd + k))]) [0..sd - 1])
      [1..M - 1] scale0"
  define norm1 where "norm1 = caffe_cpu_gemm M sd 1 (- 1) ones scale1 1 norm0"
  define norm2 where "norm2 = caffe_exp (sd * M) norm1 norm1"
  define scale2 where "scale2 = caffe_cpu_gemv_trans M sd 1 norm2 ones 0 scale1"
  define norm3 where "norm3 =
    fold (\<lambda>j nd. caffe_div sd (\<lambda>i. nd ! nat (j * sd + i)) (\<lambda>i. scale2 ! nat i) (j * sd) nd)
      [0..M - 1] norm2"
  define mx where "mx = Max (f ` {0..M - 1})"
  have rd': "0 < M" "0 \<le> ph" "0 \<le> pw" "M \<le> int (length ones)"
    "\<And>j. 0 \<le> j \<Longrightarrow> j < M \<Longrightarrow> ones ! nat j = 1"
    "sd \<le> int (length (data (scale_m st)))" "M * sd \<le> int (length (data (norm_data_m st)))"
    "M * sd \<le> int (length (unary_m st))"
    using rd by (auto simp: unary_ready_def M_def ph_def pw_def sd_def ones_def list_all_iff)
  have hw: "0 \<le> h" "h < ph" "0 \<le> w" "w < pw" using h w by (simp_all add: ph_def pw_def)
  have kb: "0 \<le> k" "k < sd" using index_bounds [OF hw] by (simp_all add: k_def sd_def)
  have sdp: "0 < sd" using kb by simp
  have ib: "0 \<le> j * sd + k" "j * sd + k < M * sd" if "0 \<le> j" "j < M" for j
    using index_bounds [OF that kb] by simp_all
  have l0: "length norm0 = length (data (norm_data_m st))"
    "length scale0 = length (data (scale_m st))"
    by (simp_all add: norm0_def scale0_def caffe_copy_def)
  have l1: "length scale1 = length scale0" unfolding scale1_def by (rule max_loop_length)
  have ln1: "length norm1 = length norm0" by (simp add: norm1_def caffe_cpu_gemm_def)
  have ln2: "length norm2 = length norm1" by (simp add: norm2_def caffe_exp_def)
  have kl: "nat k < length scale0" using kb rd'(6) l0 by linarith
  have jl: "nat (j * sd + k) < length norm0" if "0 \<le> j" "j < M" for j
    using ib [OF that] rd'(7) l0 by linarith
  have n0: "norm0 ! nat (j * sd + k) = f j" if "0 \<le> j" "j < M" for j
    unfolding norm0_def caffe_copy_def f_def
    using ib [OF that] jl [OF that] l0
    by (intro write_entries_nth) (simp_all add: mult.commute)
  have s0: "scale0 ! nat k = f 0"
    unfolding scale0_def caffe_copy_def f_def
    using kb kl l0 by (simp add: write_entries_nth)
  have s1: "scale1 ! nat k = mx"
  proof -
    have "scale1 ! nat k = fold (\<lambda>j m. max m (bd (j * sd + k))) [1..M - 1] (scale0 ! nat k)"
      unfolding scale1_def by (rule max_loop_nth [OF kb kl])
    also have "\<dots> = Max (insert (f 0) (f ` set [1..M - 1]))"
      unfolding s0 f_def by (rule fold_max_Max)
    also have "insert (f 0) (f ` set [1..M - 1]) = f ` {0..M - 1}"
    proof -
      have "{0..M - 1} = insert 0 {1..M - 1}" using rd'(1) by auto
      then show ?thesis by simp
    qed
    finally show ?thesis by (simp add: mx_def)
  qed
  have n1: "norm1 ! nat (j * sd + k) = f j - mx" if "0 \<le> j" "j < M" for j
  proof -
    have d: "(j * sd + k) div sd = j" "(j * sd + k) mod sd = k" using kb by simp_all
    have "norm1 ! nat (j * sd + k)
        = - 1 * sum_list (map (\<lambda>l. ones ! nat (((j * sd + k) div sd) * 1 + l)
                                  * scale1 ! nat (l * sd + (j * sd + k) mod sd)) [0..1 - 1])
          + 1 * norm0 ! nat (j * sd + k)"
      unfolding norm1_def caffe_cpu_gemm_def
      using ib [OF that] jl [OF that] by (intro write_entries_nth) simp_all
    then show ?thesis
      unfolding d using rd'(5) [OF that] n0 [OF that] s1 by simp
  qed
  have n2: "norm2 ! nat (j * sd + k) = exp (f j - mx)" if "0 \<le> j" "j < M" for j
  proof -
    have "norm2 ! nat (j * sd + k) = exp (norm1 ! nat (j * sd + k))"
      unfolding norm2_def caffe_exp_def
      using ib [OF that] jl [OF that] ln1 by (intro write_entries_nth) (simp_all add: mult.commute)
    then show ?thesis by (simp add: n1 [OF that])
  qed
  have s2: "scale2 ! nat k = sum_list (map (\<lambda>j. exp (f j - mx)) [0..M - 1])"
  proof -
    have "scale2 ! nat k
        = 1 * sum_list (map (\<lambda>l. norm2 ! nat (l * sd + k) * ones ! nat l) [0..M - 1])
          + 0 * scale1 ! nat k"
      unfolding scale2_def caffe_cpu_gemv_trans_def
      using kb kl l1 by (intro write_entries_nth) simp_all
    moreover have "map (\<lambda>l. norm2 ! nat (l * sd + k) * ones ! nat l) [0..M - 1]
        = map (\<lambda>j. exp (f j - mx)) [0..M - 1]"
      by (rule map_cong) (simp_all add: n2 rd'(5))
    ultimately show ?thesis by simp
  qed
  have n3: "norm3 ! nat (c * sd + k) = exp (f c - mx) / scale2 ! nat k"
  proof -
    have cM: "0 \<le> c" "c < M" using c by (simp_all add: M_def)
    have "norm3 ! nat (c * sd + k) = norm2 ! nat (c * sd + k) / scale2 ! nat k"
      unfolding norm3_def
      using jl [OF cM] ln1 ln2 by (intro div_loop_nth cM kb) simp
    then show ?thesis by (simp add: n2 [OF cM])
  qed
  have idx: "(c * ph + h) * pw + w = c * sd + k"
    by (simp add: sd_def k_def algebra_simps)
  have ul: "nat ((h * pw + w) * M + c) < length (unary_m st)"
  proof -
    have "0 \<le> k * M + c" "k * M + c < sd * M"
      using index_bounds [OF kb c(1)] c(2) by (simp_all add: M_def)
    then show ?thesis using rd'(8) by (simp add: k_def mult.commute)
  qed
  have u: "unary_m (SetupUnaryEnergy buf off st) ! nat ((h * pw + w) * M + c)
      = - ln (norm3 ! nat ((c * ph + h) * pw + w))"
    unfolding SetupUnaryEnergy_def Let_def norm3_def scale2_def norm2_def norm1_def scale1_def
      scale0_def norm0_def ones_def bd_def sd_def M_def ph_def pw_def
    using c h w ul
    by (simp add: M_def pw_def, intro crop_loop_nth) simp_all
  have sm: "map (\<lambda>j. buf ! nat (off + ((j * ph + h) * pw + w))) [0..M - 1] = map f [0..M - 1]"
    by (rule map_cong) (simp_all add: f_def bd_def sd_def k_def algebra_simps)
  have cl: "nat c < length [0..M - 1]" "[0..M - 1] ! nat c = c"
    using c by (simp_all add: M_def)
  have so: "softmax exp (map f [0..M - 1]) ! nat c
      = exp (f c - mx) / sum_list (map (\<lambda>j. exp (f j - mx)) [0..M - 1])"
    using cl by (simp add: softmax_def mx_def comp_def)
  have "unary_m (SetupUnaryEnergy buf off st) ! nat ((h * pw + w) * M + c)
      = - ln (norm3 ! nat (c * sd + k))"
    using u unfolding idx .
  also have "\<dots> = - ln (softmax exp (map f [0..M - 1]) ! nat c)"
    unfolding n3 s2 so ..
  also have "\<dots> = - ln (softmax exp
      (map (\<lambda>j. buf ! nat (off + ((j * ph + h) * pw + w))) [0..M - 1]) ! nat c)"
    unfolding sm ..
  finally show ?thesis unfolding M_def ph_def pw_def .
qed

lemma fill_ones_ready:
  assumes "0 \<le> m"
  shows "m \<le> int (length (data (fill_ones (blob_Reshape b 1 m 1 1))))"
    and "list_all (\<lambda>j. data (fill_ones (blob_Reshape b 1 m 1 1)) ! nat j = 1) [0..m - 1]"
proof -
  let ?b = "blob_Reshape b 1 m 1 1"
  have c: "count ?b = m" by (simp add: count_def)
  have l: "m \<le> int (length (data ?b))" using blob_Reshape_fields(5) [of b 1 m 1 1] c by simp
  have d: "data (fill_ones ?b) = write_entries m (\<lambda>i. 1) (data ?b)"
    by (simp add: fill_ones_def write_entries_def c)
  show "m \<le> int (length (data (fill_ones ?b)))" using l by (simp add: d)
  show "list_all (\<lambda>j. data (fill_ones ?b) ! nat j = 1) [0..m - 1]"
    unfolding list_all_iff d using l by (auto simp: write_entries_nth)
qed

lemma Reshape_unary_ready:
  assumes r: "Reshape bottom tops0 st0 = Inr (st, tops)"
    and d: "0 < channels (bottom ! 0)" "0 \<le> height (bottom ! 0)" "0 \<le> width (bottom ! 0)"
    and u: "unary_element_m st0 \<le> int (length (unary_m st0))"
  shows "unary_ready st"
proof -
  note i = Reshape_InrD [OF r]
  have sm: "sum_multiplier_m st = fill_ones (blob_Reshape (sum_multiplier_m st0) 1 (M_m st) 1 1)"
    and sc: "scale_m st = blob_Reshape (scale_m st0) 1 1 (pad_height_m st) (pad_width_m st)"
    and nd: "norm_data_m st
        = blob_Reshape (norm_data_m st0) 1 (M_m st) (pad_height_m st) (pad_width_m st)"
    using r by (auto simp: Reshape_def bottom_at_def Let_def AllocateAllData_def
        DeAllocateAllData_def split: if_splits sum.splits)
  have M: "0 < M_m st" "0 \<le> pad_height_m st" "0 \<le> pad_width_m st" using i d by simp_all
  have ul: "M_m st * (pad_height_m st * pad_width_m st) \<le> int (length (unary_m st))"
  proof -
    have e: "ensured_capacity st0 (footprint (bottom ! 0)) st" by (rule Reshape_ensured [OF r])
    have fp: "footprint (bottom ! 0) = M_m st * (pad_height_m st * pad_width_m st)"
      using i by (simp add: footprint_def algebra_simps)
    have nn: "0 \<le> M_m st * (pad_height_m st * pad_width_m st)" using M by simp
    show ?thesis
    proof (cases "unary_element_m st0 < footprint (bottom ! 0)")
      case True
      with e have "length (unary_m st) = nat (footprint (bottom ! 0))"
        by (simp add: ensured_capacity_def)
      then show ?thesis using nn fp by simp
    next
      case False
      with e have "unary_m st = unary_m st0" by (simp add: ensured_capacity_def)
      then show ?thesis using False u fp by simp
    qed
  qed
  have s1: "pad_height_m st * pad_width_m st \<le> int (length (data (scale_m st)))"
    using blob_Reshape_fields(5) [of "scale_m st0" 1 1 "pad_height_m st" "pad_width_m st"]
    by (simp add: sc count_def)
  have n1: "M_m st * (pad_height_m st * pad_width_m st) \<le> int (length (data (norm_data_m st)))"
    using blob_Reshape_fields(5) [of "norm_data_m st0" 1 "M_m st" "pad_height_m st" "pad_width_m st"]
    by (simp add: nd count_def algebra_simps)
  show ?thesis
    unfolding unary_ready_def
    using M ul s1 n1 fill_ones_ready [of "M_m st" "sum_multiplier_m st0"] by (simp add: sm)
qed

lemma unary_ready_active [simp]:
  "unary_ready (set_active_region rh rw st) = unary_ready st"
  by (simp add: unary_ready_def set_active_region_def)

lemma SetupUnaryEnergy_energy:
  assumes "unary_ready st"
    and "M_m st = channels b0" "pad_height_m st = height b0" "pad_width_m st = width b0"
    and "0 \<le> c" "c < M_m st" "0 \<le> h" "h < H_m st" "H_m st \<le> pad_height_m st"
    and "0 \<le> w" "w < W_m st" "W_m st \<le> pad_width_m st"
  shows "unary_m (SetupUnaryEnergy (data b0) (offset b0 n) st)
           ! nat ((h * pad_width_m st + w) * M_m st + c) = unary_energy b0 n h w c"
  using SetupUnaryEnergy_writes [OF assms(1,5-12), of "data b0" "offset b0 n"] assms(2-4)
  by (simp add: unary_energy_def pixel_scores_def)

lemma narrow_energies:
  "unary_energy (narrow_inputs ! 0) 0 1 0 0 = ln 2"
  "unary_energy (narrow_inputs ! 0) 0 1 1 0 = ln (1 + exp (- 1))"
proof -
  have p: "pixel_scores (narrow_inputs ! 0) 0 1 0 = [0, 0]"
    "pixel_scores (narrow_inputs ! 0) 0 1 1 = [1, 0]"
    by (simp_all add: pixel_scores_def narrow_inputs_def offset_def upto.simps)
  show "unary_energy (narrow_inputs ! 0) 0 1 0 0 = ln 2"
    by (simp add: unary_energy_def p softmax_def ln_div)
  have "softmax exp [1, 0] ! 0 = 1 / (1 + exp (- 1))" by (simp add: softmax_def)
  moreover have "0 < 1 + exp (- 1 :: real)" by (simp add: add_pos_pos)
  ultimately show "unary_energy (narrow_inputs ! 0) 0 1 1 0 = ln (1 + exp (- 1))"
    by (simp add: unary_energy_def p ln_div)
qed

text \<open>
  C1 fails on the code. For the image of \<open>narrow_inputs\<close> (active region 2 x 2 in a padded
  extent of 2 x 3, 2 classes) the entry that the solver reads for pixel (1, 1) and class 0,
  at index \<open>(1 * W_ + 1) * M_ + 0 = 6\<close>, is the energy of pixel (1, 0), which the writer
  stored at \<open>(1 * pad_width_ + 0) * M_ + 0 = 6\<close>; it differs from the energy of pixel (1, 1).
\<close>

theorem C1_writer_uses_padded_stride:
  "H_m narrow_state = 2 \<and> W_m narrow_state = 2 \<and> M_m narrow_state = 2
   \<and> pad_height_m narrow_state = 2 \<and> pad_width_m narrow_state = 3
   \<and> unary_m narrow_state ! nat ((1 * W_m narrow_state + 1) * M_m narrow_state + 0)
       = unary_energy (narrow_inputs ! 0) 0 1 0 0
   \<and> unary_m narrow_state ! nat ((1 * W_m narrow_state + 1) * M_m narrow_state + 0)
       \<noteq> unary_energy (narrow_inputs ! 0) 0 1 1 0"
proof -
  obtain st0 where s0: "LayerSetUp bilateral_param narrow_inputs new_layer = Inr st0"
    by (simp add: LayerSetUp_def bilateral_param_def narrow_inputs_def new_layer_def Let_def)
  then have f0: "has_image st0" "unary_element_m st0 = 0"
    by (auto simp: LayerSetUp_def bilateral_param_def narrow_inputs_def new_layer_def Let_def)
  obtain st tops where r: "Reshape narrow_inputs (empty_blob, empty_blob) st0 = Inr (st, tops)"
    using f0 by (simp add: Reshape_def bottom_at_def narrow_inputs_def Let_def)
  have b0: "channels (narrow_inputs ! 0) = 2" "height (narrow_inputs ! 0) = 2"
    "width (narrow_inputs ! 0) = 3"
    by (simp_all add: narrow_inputs_def)
  note i = Reshape_InrD [OF r]
  have dims: "M_m st = 2" "pad_height_m st = 2" "pad_width_m st = 3" using i b0 by simp_all
  have rd: "unary_ready st" by (rule Reshape_unary_ready [OF r]) (simp_all add: b0 f0)
  have real: "real_img_height (narrow_inputs ! 1) 0 = 2" "real_img_width (narrow_inputs ! 1) 0 = 2"
    by (simp_all add: real_img_height_def real_img_width_def narrow_inputs_def offset_def
        to_int_def)
  let ?s1 = "set_active_region 2 2 st"
  have ns: "narrow_state = SetupUnaryEnergy (data (narrow_inputs ! 0))
      (offset (narrow_inputs ! 0) 0) ?s1"
    unfolding narrow_state_def real by (simp add: setup_then_reshape_def s0 r)
  have a: "H_m ?s1 = 2" "W_m ?s1 = 2" by (simp_all add: set_active_region_inside dims)
  have fr: "H_m narrow_state = 2" "W_m narrow_state = 2" "M_m narrow_state = 2"
    "pad_height_m narrow_state = 2" "pad_width_m narrow_state = 3"
    unfolding ns using a dims by (simp_all add: SetupUnaryEnergy_def Let_def)
  have "unary_m narrow_state ! nat ((1 * pad_width_m ?s1 + 0) * M_m ?s1 + 0)
      = unary_energy (narrow_inputs ! 0) 0 1 0 0"
    unfolding ns by (rule SetupUnaryEnergy_energy) (simp_all add: rd dims b0 a)
  then have e: "unary_m narrow_state ! 6 = unary_energy (narrow_inputs ! 0) 0 1 0 0"
    by (simp add: dims)
  have "ln 2 \<noteq> ln (1 + exp (- 1 :: real))" by (simp add: add_pos_pos)
  then have "unary_m narrow_state ! 6 \<noteq> unary_energy (narrow_inputs ! 0) 0 1 1 0"
    unfolding e narrow_energies .
  with e fr show ?thesis by simp
qed

section \<open>Memory safety of one image\<close>

lemma list_all_upto_iff: "list_all P [lo..hi] \<longleftrightarrow> (\<forall>i. lo \<le> i \<and> i \<le> hi \<longrightarrow> P i)"
  by (auto simp: list_all_iff)

lemma block_in_bufI:
  assumes "0 \<le> n" "0 \<le> off" "off + n \<le> int (length xs)"
  shows "block_in_buf xs off n"
  using assms by (auto simp: block_in_buf_def)

lemma in_bufI:
  assumes "0 \<le> i" "i < n" "n \<le> int (length xs)"
  shows "in_buf xs i"
  using assms by (simp add: in_buf_def)

lemma in_buf_offsetI:
  assumes "0 \<le> off" "0 \<le> i" "i < n" "off + n \<le> int (length xs)"
  shows "in_buf xs (off + i)"
  using assms by (simp add: in_buf_def)

lemma SetupUnaryEnergy_blocks:
  assumes rd: "unary_ready st"
    and b: "0 \<le> off" "off + M_m st * (pad_height_m st * pad_width_m st) \<le> int (length buf)"
  shows "block_in_buf buf off (pad_height_m st * pad_width_m st * M_m st)
     \<and> block_in_buf (data (norm_data_m st)) 0 (pad_height_m st * pad_width_m st * M_m st)
     \<and> block_in_buf buf off (pad_height_m st * pad_width_m st)
     \<and> block_in_buf (data (scale_m st)) 0 (pad_height_m st * pad_width_m st)
     \<and> block_in_buf (data (sum_multiplier_m st)) 0 (M_m st)"
proof -
  let ?M = "M_m st" and ?ph = "pad_height_m st" and ?pw = "pad_width_m st"
  from rd have M: "0 < ?M" and ph: "0 \<le> ?ph" and pw: "0 \<le> ?pw"
    and sm: "?M \<le> int (length (data (sum_multiplier_m st)))"
    and sc: "?ph * ?pw \<le> int (length (data (scale_m st)))"
    and nd: "?M * (?ph * ?pw) \<le> int (length (data (norm_data_m st)))"
    by (simp_all add: unary_ready_def)
  have sd: "0 \<le> ?ph * ?pw" using ph pw by simp
  have c: "?ph * ?pw * ?M = ?M * (?ph * ?pw)" by simp
  have sdM: "0 \<le> ?M * (?ph * ?pw)" using sd M by simp
  have le: "?ph * ?pw \<le> ?M * (?ph * ?pw)" using sd M by (simp add: mult_le_cancel_right1)
  have b1: "block_in_buf buf off (?ph * ?pw * ?M)"
    unfolding c by (rule block_in_bufI) (use sdM b in simp_all)
  have b2: "block_in_buf (data (norm_data_m st)) 0 (?ph * ?pw * ?M)"
    unfolding c by (rule block_in_bufI) (use sdM nd in simp_all)
  have b3: "block_in_buf buf off (?ph * ?pw)"
    by (rule block_in_bufI) (use sd b le in simp_all)
  have b4: "block_in_buf (data (scale_m st)) 0 (?ph * ?pw)"
    by (rule block_in_bufI) (use sd sc in simp_all)
  have b5: "block_in_buf (data (sum_multiplier_m st)) 0 ?M"
    by (rule block_in_bufI) (use M sm in simp_all)
  from b1 b2 b3 b4 b5 show ?thesis by blast
qed

lemma SetupUnaryEnergy_no_fault:
  assumes rd: "unary_ready st"
    and H: "H_m st \<le> pad_height_m st" and W: "W_m st \<le> pad_width_m st"
    and b: "0 \<le> off" "off + M_m st * (pad_height_m st * pad_width_m st) \<le> int (length buf)"
  shows "SetupUnaryEnergy_fault buf off st = None"
proof -
  let ?M = "M_m st" and ?ph = "pad_height_m st" and ?pw = "pad_width_m st"
  from rd have M: "0 < ?M" and ph: "0 \<le> ?ph" and pw: "0 \<le> ?pw"
    and nd: "?M * (?ph * ?pw) \<le> int (length (data (norm_data_m st)))"
    and un: "?M * (?ph * ?pw) \<le> int (length (unary_m st))"
    by (simp_all add: unary_ready_def)
  have crop: "list_all (\<lambda>c. list_all (\<lambda>h. list_all (\<lambda>w.
        in_buf (data (norm_data_m st)) ((c * ?ph + h) * ?pw + w)
        \<and> in_buf (unary_m st) ((h * ?pw + w) * ?M + c))
      [0..W_m st - 1]) [0..H_m st - 1]) [0..?M - 1]"
    unfolding list_all_upto_iff
  proof (intro allI impI conjI)
    fix c h w
    assume "0 \<le> c \<and> c \<le> ?M - 1" "0 \<le> h \<and> h \<le> H_m st - 1" "0 \<le> w \<and> w \<le> W_m st - 1"
    then have c: "0 \<le> c" "c < ?M" and h: "0 \<le> h" "h < ?ph" and w: "0 \<le> w" "w < ?pw"
      using H W by simp_all
    note o = out_index_bounds [OF c h w]
    show "in_buf (data (norm_data_m st)) ((c * ?ph + h) * ?pw + w)"
      by (rule in_bufI [OF o]) (use nd in \<open>simp add: mult.assoc\<close>)
    note a = index_bounds [OF h w]
    note i = index_bounds [OF a c]
    show "in_buf (unary_m st) ((h * ?pw + w) * ?M + c)"
      by (rule in_bufI [OF i]) (use un in \<open>simp add: mult.commute\<close>)
  qed
  show ?thesis
    unfolding SetupUnaryEnergy_fault_def Let_def
    using SetupUnaryEnergy_blocks [OF rd b] crop by simp
qed

lemma SetupUnaryEnergy_crop_fault:
  assumes rd: "unary_ready st"
    and b: "0 \<le> off" "off + M_m st * (pad_height_m st * pad_width_m st) \<le> int (length buf)"
    and x: "0 \<le> c" "c < M_m st" "0 \<le> h" "h < H_m st" "0 \<le> w" "w < W_m st"
    and o: "\<not> in_buf (unary_m st) ((h * pad_width_m st + w) * M_m st + c)"
  shows "SetupUnaryEnergy_fault buf off st = Some (BufferOverrun ''SetupUnaryEnergy: crop'')"
proof -
  have "\<not> list_all (\<lambda>c. list_all (\<lambda>h. list_all (\<lambda>w.
        in_buf (data (norm_data_m st)) ((c * pad_height_m st + h) * pad_width_m st + w)
        \<and> in_buf (unary_m st) ((h * pad_width_m st + w) * M_m st + c))
      [0..W_m st - 1]) [0..H_m st - 1]) [0..M_m st - 1]"
    unfolding list_all_upto_iff
  proof
    assume a: "\<forall>c. 0 \<le> c \<and> c \<le> M_m st - 1 \<longrightarrow> (\<forall>h. 0 \<le> h \<and> h \<le> H_m st - 1 \<longrightarrow>
      (\<forall>w. 0 \<le> w \<and> w \<le> W_m st - 1 \<longrightarrow>
        in_buf (data (norm_data_m st)) ((c * pad_height_m st + h) * pad_width_m st + w)
        \<and> in_buf (unary_m st) ((h * pad_width_m st + w) * M_m st + c)))"
    have "0 \<le> c \<and> c \<le> M_m st - 1" "0 \<le> h \<and> h \<le> H_m st - 1" "0 \<le> w \<and> w \<le> W_m st - 1"
      using x by simp_all
    with a have "in_buf (unary_m st) ((h * pad_width_m st + w) * M_m st + c)" by blast
    with o show False ..
  qed
  then show ?thesis
    unfolding SetupUnaryEnergy_fault_def Let_def
    using SetupUnaryEnergy_blocks [OF rd b] by simp
qed

lemma SetupPairwiseFunctions_no_fault:
  assumes N: "0 \<le> N_m st"
    and H: "H_m st \<le> pad_height_m st" and W: "W_m st \<le> pad_width_m st"
    and pw: "0 \<le> pad_width_m st"
    and im: "has_image st \<and> 2 < length bottom
       \<longrightarrow> 3 * (pad_height_m st * pad_width_m st) \<le> int (length (data (bottom ! 2)))"
  shows "SetupPairwiseFunctions_fault bottom st = None"
proof (cases "has_image st \<and> bi_w_m st \<noteq> [] \<and> 2 < length bottom")
  case False
  then show ?thesis using N by (auto simp: SetupPairwiseFunctions_fault_def)
next
  case True
  let ?ph = "pad_height_m st" and ?pw = "pad_width_m st"
  let ?im = "data (bottom ! 2)"
  from True im have l: "3 * (?ph * ?pw) \<le> int (length ?im)" by simp
  have rd: "list_all (\<lambda>j. list_all (\<lambda>i.
        in_buf ?im (j * ?pw + i) \<and> in_buf ?im (j * ?pw + i + ?ph * ?pw)
        \<and> in_buf ?im (j * ?pw + i + 2 * (?ph * ?pw)))
      [0..W_m st - 1]) [0..H_m st - 1]"
    unfolding list_all_upto_iff
  proof (intro allI impI)
    fix j i
    assume "0 \<le> j \<and> j \<le> H_m st - 1" "0 \<le> i \<and> i \<le> W_m st - 1"
    then have j: "0 \<le> j" "j < ?ph" and i: "0 \<le> i" "i < ?pw" using H W by simp_all
    note a = index_bounds [OF j i]
    show "in_buf ?im (j * ?pw + i) \<and> in_buf ?im (j * ?pw + i + ?ph * ?pw)
        \<and> in_buf ?im (j * ?pw + i + 2 * (?ph * ?pw))"
      unfolding in_buf_def using a l by linarith
  qed
  show ?thesis
    unfolding SetupPairwiseFunctions_fault_def Let_def using N rd by simp
qed

lemma ExpAndNormalize_in_boundsI:
  assumes "0 < M" "N * M \<le> int (length inp)" "N * M \<le> int (length out)"
  shows "ExpAndNormalize_in_bounds out inp N M"
  unfolding ExpAndNormalize_in_bounds_def list_all_upto_iff
proof (intro allI impI conjI)
  fix i assume "0 \<le> i \<and> i \<le> N - 1"
  then have i: "0 \<le> i" "i < N" by simp_all
  have "0 \<le> i * M + 0" "i * M + 0 < N * M" by (rule index_bounds [OF i]; use assms in simp)+
  then show "in_buf inp (i * M)" unfolding in_buf_def using assms(2) by linarith
next
  fix i j assume "0 \<le> i \<and> i \<le> N - 1" "0 \<le> j \<and> j \<le> M - 1"
  then have i: "0 \<le> i" "i < N" and j: "0 \<le> j" "j < M" by simp_all
  note a = index_bounds [OF i j]
  show "in_buf inp (i * M + j)" by (rule in_bufI [OF a assms(2)])
  show "in_buf out (i * M + j)" by (rule in_bufI [OF a assms(3)])
qed

lemma RunInference_no_fault:
  assumes "0 < M_m st"
    and "N_m st * M_m st \<le> int (length (unary_m st))"
    and "N_m st * M_m st \<le> int (length (current_m st))"
    and "N_m st * M_m st \<le> int (length (next_m st))"
  shows "RunInference_fault st = None"
proof -
  have "list_all (\<lambda>i. in_buf (unary_m st) i \<and> in_buf (next_m st) i) [0..N_m st * M_m st - 1]"
    unfolding list_all_upto_iff in_buf_def using assms by auto
  then show ?thesis
    unfolding RunInference_fault_def
    using assms by (simp add: ExpAndNormalize_in_boundsI)
qed

lemma decode_no_fault:
  assumes sh: "tops_shaped st tops" and n: "0 \<le> n" "n < num_m st"
    and M: "0 < M_m st"
    and H: "H_m st \<le> pad_height_m st" and W: "W_m st \<le> pad_width_m st"
    and cur: "H_m st * W_m st * M_m st \<le> int (length (current_m st))"
  shows "decode_in_bounds n tops st"
proof -
  let ?M = "M_m st" and ?ph = "pad_height_m st" and ?pw = "pad_width_m st"
  note rb = region_bounds [OF sh n]
  have t: "height (fst tops) = ?ph" "width (fst tops) = ?pw"
    using sh by (simp_all add: tops_shaped_def)
  have le: "?ph * ?pw \<le> ?M * ?ph * ?pw"
  proof -
    have "0 \<le> ?ph * ?pw" using sh by (simp add: tops_shaped_def)
    then have "1 * (?ph * ?pw) \<le> ?M * (?ph * ?pw)" using M by (intro mult_right_mono) simp_all
    then show ?thesis by (simp add: mult.assoc)
  qed
  show ?thesis
    unfolding decode_in_bounds_def list_all_upto_iff t
  proof (intro allI impI conjI)
    fix h w assume "0 \<le> h \<and> h \<le> H_m st - 1" "0 \<le> w \<and> w \<le> W_m st - 1"
    then have h: "0 \<le> h" "h < H_m st" and w: "0 \<le> w" "w < W_m st" by simp_all
    have h': "h < ?ph" and w': "w < ?pw" using h w H W by simp_all
    note a = index_bounds [OF h w]
    have "0 \<le> (h * W_m st + w) * ?M + 0" "(h * W_m st + w) * ?M + 0 < H_m st * W_m st * ?M"
      by (rule index_bounds [OF a]; use M in simp)+
    then show "in_buf (current_m st) ((h * W_m st + w) * ?M)"
      unfolding in_buf_def using cur by linarith
    note o = index_bounds [OF h(1) h' w(1) w']
    show "in_buf (data (fst tops)) (offset (fst tops) n + (h * ?pw + w))"
      by (rule in_buf_offsetI [OF rb(1) o]) (use rb(2) le in linarith)
    show "in_buf (data (snd tops)) (offset (snd tops) n + (h * ?pw + w))"
      by (rule in_buf_offsetI [OF rb(3) o rb(4)])
  next
    fix h w c
    assume "0 \<le> h \<and> h \<le> H_m st - 1" "0 \<le> w \<and> w \<le> W_m st - 1" "1 \<le> c \<and> c \<le> ?M - 1"
    then have h: "0 \<le> h" "h < H_m st" and w: "0 \<le> w" "w < W_m st" and c: "0 \<le> c" "c < ?M"
      by simp_all
    have h': "h < ?ph" and w': "w < ?pw" using h w H W by simp_all
    note a = index_bounds [OF h w]
    note i = index_bounds [OF a c]
    show "in_buf (current_m st) ((h * W_m st + w) * ?M + c)"
      by (rule in_bufI [OF i cur])
    note o = out_index_bounds [OF c h(1) h' w(1) w']
    show "in_buf (data (fst tops)) (offset (fst tops) n + ((c * ?ph + h) * ?pw + w))"
      by (rule in_buf_offsetI [OF rb(1) o rb(2)])
  qed
qed

lemma ComputeMap_memset_no_fault:
  assumes sh: "tops_shaped st tops" and n: "0 \<le> n" "n < num_m st"
  shows "ComputeMap_memset_fault n tops = None"
proof -
  note rb = region_bounds [OF sh n]
  have t: "channels (fst tops) = M_m st" "height (fst tops) = pad_height_m st"
    "width (fst tops) = pad_width_m st"
    and nn: "0 \<le> M_m st" "0 \<le> pad_height_m st" "0 \<le> pad_width_m st"
    using sh by (simp_all add: tops_shaped_def)
  have "block_in_buf (data (fst tops)) (offset (fst tops) n)
      (M_m st * pad_height_m st * pad_width_m st)"
    by (rule block_in_bufI) (use rb nn in simp_all)
  moreover have "block_in_buf (data (snd tops)) (offset (snd tops) n)
      (pad_height_m st * pad_width_m st)"
    by (rule block_in_bufI) (use rb nn in simp_all)
  ultimately show ?thesis by (simp add: ComputeMap_memset_fault_def t)
qed

lemma ComputeMap_no_fault:
  assumes sh: "tops_shaped st tops" and n: "0 \<le> n" "n < num_m st"
    and M: "0 < M_m st"
    and N: "N_m st = W_m st * H_m st"
    and H: "H_m st \<le> pad_height_m st" and W: "W_m st \<le> pad_width_m st"
    and u: "N_m st * M_m st \<le> int (length (unary_m st))"
    and c: "N_m st * M_m st \<le> int (length (current_m st))"
    and x: "N_m st * M_m st \<le> int (length (next_m st))"
  shows "ComputeMap_fault n tops st = None"
proof -
  have "H_m st * W_m st * M_m st \<le> int (length (current_m st))"
    using c N by (simp add: mult.commute)
  from decode_no_fault [OF sh n M H W this] RunInference_no_fault [OF M u c x]
  show ?thesis by (simp add: ComputeMap_fault_def)
qed


lemma Forward_image_InrD:
  assumes "Forward_image ext sse bottom n (st, tops) = Inr (st', tops')"
  obtains b0 b1 st3 st4 where
    "bottom_at bottom 0 = Inr b0" "bottom_at bottom 1 = Inr b1"
    "N_m (set_active_region (real_img_height b1 n) (real_img_width b1 n) st) \<le> map_element_m st"
    "SetupPairwiseFunctions bottom (SetupUnaryEnergy (data b0) (offset b0 n)
       (set_active_region (real_img_height b1 n) (real_img_width b1 n) st)) = Inr st3"
    "ComputeMap ext sse n tops st3 = Inr (st4, tops')"
    "st' = ClearPairwiseFunctions st4"
proof -
  have m: "map_element_m (set_active_region rh rw st) = map_element_m st" for rh rw
    by (simp add: set_active_region_def)
  from assms show ?thesis
    by (auto simp: Forward_image_def Let_def m split: sum.splits if_splits option.splits
        intro: that)
qed

lemma fault_is_no_check:
  "SetupUnaryEnergy_fault buf off st = Some e \<Longrightarrow> e \<noteq> CheckFailed m"
  "SetupPairwiseFunctions_fault bottom st = Some e \<Longrightarrow> e \<noteq> CheckFailed m"
  "ComputeMap_memset_fault n tops = Some e \<Longrightarrow> e \<noteq> CheckFailed m"
  "ComputeMap_fault n tops st = Some e \<Longrightarrow> e \<noteq> CheckFailed m"
  by (auto simp: SetupUnaryEnergy_fault_def SetupPairwiseFunctions_fault_def
      ComputeMap_memset_fault_def ComputeMap_fault_def RunInference_fault_def Let_def
      split: if_splits option.splits)

lemma SetupPairwise_InlD:
  "SetupPairwiseFunctions bottom st = Inl e \<Longrightarrow> e = BottomOutOfRange 2"
  by (auto simp: SetupPairwiseFunctions_def Let_def bottom_at_def split: if_splits sum.splits)

lemma ComputeMap_InlD:
  "ComputeMap ext sse n tops st = Inl e \<Longrightarrow>
     e \<noteq> CheckFailed ''The pre-allocated memory is not enough!''"
  by (auto simp: ComputeMap_def Let_def split: if_splits)

lemma Forward_image_capacity_abort_iff:
  assumes b: "2 \<le> length bottom"
    and d: "in_buf (data (bottom ! 1)) (offset (bottom ! 1) n)"
      "in_buf (data (bottom ! 1)) (offset (bottom ! 1) n + 1)"
  shows "capacity_abort (Forward_image ext sse bottom n (st, tops))
     \<longleftrightarrow> map_element_m st < N_m (set_active_region (real_img_height (bottom ! 1) n)
                                   (real_img_width (bottom ! 1) n) st)"
proof (cases "N_m (set_active_region (real_img_height (bottom ! 1) n)
                (real_img_width (bottom ! 1) n) st) \<le> map_element_m st")
  case True
  have "Forward_image ext sse bottom n (st, tops)
      \<noteq> Inl (CheckFailed ''The pre-allocated memory is not enough!'')"
    using b d True
    by (auto simp: Forward_image_def bottom_at_def Let_def
        split: sum.splits option.splits
        dest: fault_is_no_check SetupPairwise_InlD ComputeMap_InlD)
  then show ?thesis using True by (simp add: capacity_abort_def)
next
  case False
  then show ?thesis
    using b d by (auto simp: Forward_image_def bottom_at_def Let_def capacity_abort_def)
qed

lemma Forward_image_succeeds:
  assumes b: "2 \<le> length bottom" "has_image st \<longrightarrow> 3 \<le> length bottom"
    and t: "channels (fst tops) = M_m st" "height (fst tops) = pad_height_m st"
      "width (fst tops) = pad_width_m st"
    and d: "in_buf (data (bottom ! 1)) (offset (bottom ! 1) n)"
      "in_buf (data (bottom ! 1)) (offset (bottom ! 1) n + 1)"
    and N: "N_m (set_active_region (real_img_height (bottom ! 1) n)
              (real_img_width (bottom ! 1) n) st) \<le> map_element_m st"
    and f1: "SetupUnaryEnergy_fault (data (bottom ! 0)) (offset (bottom ! 0) n)
       (set_active_region (real_img_height (bottom ! 1) n)
          (real_img_width (bottom ! 1) n) st) = None"
    and f2: "SetupPairwiseFunctions_fault bottom
       (SetupUnaryEnergy (data (bottom ! 0)) (offset (bottom ! 0) n)
          (set_active_region (real_img_height (bottom ! 1) n)
             (real_img_width (bottom ! 1) n) st)) = None"
    and f3: "ComputeMap_memset_fault n tops = None"
    and f4: "\<And>st3. SetupPairwiseFunctions bottom
       (SetupUnaryEnergy (data (bottom ! 0)) (offset (bottom ! 0) n)
          (set_active_region (real_img_height (bottom ! 1) n)
             (real_img_width (bottom ! 1) n) st)) = Inr st3
       \<Longrightarrow> ComputeMap_fault n tops st3 = None"
  shows "\<exists>r. Forward_image ext sse bottom n (st, tops) = Inr r"
proof -
  let ?s1 = "set_active_region (real_img_height (bottom ! 1) n) (real_img_width (bottom ! 1) n) st"
  let ?s2 = "SetupUnaryEnergy (data (bottom ! 0)) (offset (bottom ! 0) n) ?s1"
  obtain st3 where p: "SetupPairwiseFunctions bottom ?s2 = Inr st3"
    using SetupPairwise_succeeds [of ?s2 bottom] b(2) by auto
  have f: "g st3 = g st"
    if "\<And>s x. g (s\<lparr>pairwise_m := x\<rparr>) = g s" "\<And>s x. g (s\<lparr>scale_m := x\<rparr>) = g s"
      "\<And>s x. g (s\<lparr>norm_data_m := x\<rparr>) = g s" "\<And>s x. g (s\<lparr>unary_m := x\<rparr>) = g s"
      "\<And>rh rw. g (set_active_region rh rw st) = g st"
    for g :: "DenseCRFLayer \<Rightarrow> int"
    using SetupPairwise_frame [of g, OF that(1) p] SetupUnaryEnergy_frame [of g, OF that(2-4)]
      that(5) by simp
  obtain r where c: "ComputeMap ext sse n tops st3 = Inr r"
    using ComputeMap_succeeds [of tops st3 ext sse n] t by (auto simp: f)
  have m: "map_element_m ?s1 = map_element_m st" by simp
  show ?thesis
    using b(1) d N f1 f2 f3 f4 [OF p] p c
    by (auto simp: Forward_image_def bottom_at_def Let_def m)
qed


lemma Reshape_inputs:
  assumes "Reshape bottom tops0 st0 = Inr (st, tops)"
  shows "num (bottom ! 1) = num_m st" "num (bottom ! 2) = num_m st"
    and "has_image st \<Longrightarrow> height (bottom ! 2) = pad_height_m st"
    and "has_image st \<Longrightarrow> width (bottom ! 2) = pad_width_m st"
  using assms
  by (auto simp: Reshape_def bottom_at_def Let_def AllocateAllData_def DeAllocateAllData_def
      split: if_splits sum.splits)

lemma Reshape_buffers_allocated:
  assumes r: "Reshape bottom tops0 st0 = Inr (st, tops)" and a: "buffers_allocated st0"
  shows "buffers_allocated st"
proof -
  have e: "ensured_capacity st0 (footprint (bottom ! 0)) st" by (rule Reshape_ensured [OF r])
  show ?thesis
  proof (cases "unary_element_m st0 < footprint (bottom ! 0)")
    case True
    with e a show ?thesis by (simp add: ensured_capacity_def buffers_allocated_def)
  next
    case False
    with e a show ?thesis by (simp add: ensured_capacity_def buffers_allocated_def)
  qed
qed

lemma Reshape_coherent:
  assumes r: "Reshape bottom tops0 st0 = Inr (st, tops)"
    and c: "unary_element_m st0 = map_element_m st0 * channels (bottom ! 0)"
  shows "unary_element_m st = map_element_m st * M_m st"
  using r c
  by (auto simp: Reshape_def bottom_at_def Let_def AllocateAllData_def DeAllocateAllData_def
      split: if_splits sum.splits)

lemma stored_block:
  assumes s: "stored b" and n: "0 \<le> n" "n < num b"
  shows "0 \<le> offset b n"
    and "offset b n + channels b * (height b * width b) \<le> int (length (data b))"
proof -
  let ?k = "channels b * (height b * width b)"
  from s have k: "0 \<le> ?k" and l: "count b \<le> int (length (data b))"
    by (simp_all add: stored_def)
  have o: "offset b n = n * ?k" "count b = num b * ?k"
    by (simp_all add: offset_def count_def mult.assoc)
  show "0 \<le> offset b n" unfolding o using n k by simp
  have "(n + 1) * ?k \<le> num b * ?k" using n k by (intro mult_right_mono) simp_all
  then have "n * ?k + ?k \<le> num b * ?k" by (simp add: algebra_simps)
  with l show "offset b n + ?k \<le> int (length (data b))" unfolding o by linarith
qed

lemma inputs_storedD:
  assumes "inputs_stored bottom" "3 \<le> length bottom"
  shows "stored (bottom ! 0)" "stored (bottom ! 1)" "stored (bottom ! 2)"
    and "0 < channels (bottom ! 0)"
    and "2 \<le> channels (bottom ! 1) * height (bottom ! 1) * width (bottom ! 1)"
    and "channels (bottom ! 2) = 3"
proof -
  from assms have a: "\<forall>b \<in> set bottom. stored b"
    and c: "\<forall>b \<in> set (drop 2 bottom). channels b = 3"
    by (simp_all add: inputs_stored_def list_all_iff)
  have m: "bottom ! 0 \<in> set bottom" "bottom ! 1 \<in> set bottom" "bottom ! 2 \<in> set bottom"
    using assms(2) by (auto intro!: nth_mem)
  with a show "stored (bottom ! 0)" "stored (bottom ! 1)" "stored (bottom ! 2)" by blast+
  have "drop 2 bottom ! 0 \<in> set (drop 2 bottom)" using assms(2) by (intro nth_mem) simp
  moreover have "drop 2 bottom ! 0 = bottom ! 2" using assms(2) by simp
  ultimately show "channels (bottom ! 2) = 3" using c by auto
  from assms(1) show "0 < channels (bottom ! 0)"
    "2 \<le> channels (bottom ! 1) * height (bottom ! 1) * width (bottom ! 1)"
    by (simp_all add: inputs_stored_def)
qed

lemma record_readable:
  assumes s: "stored b" and k: "2 \<le> channels b * height b * width b"
    and n: "0 \<le> n" "n < num b"
  shows "in_buf (data b) (offset b n)" "in_buf (data b) (offset b n + 1)"
proof -
  note sb = stored_block [OF s n]
  have "2 \<le> channels b * (height b * width b)" using k by (simp add: mult.assoc)
  with sb show "in_buf (data b) (offset b n)" "in_buf (data b) (offset b n + 1)"
    unfolding in_buf_def by linarith+
qed

lemma active_region_inside:
  assumes ph: "0 \<le> pad_height_m st" and pw: "0 \<le> pad_width_m st"
    and rec: "(0 \<le> rh \<and> rh \<le> pad_height_m st \<and> 0 \<le> rw \<and> rw \<le> pad_width_m st)
       \<or> (pad_height_m st \<le> rh \<and> pad_width_m st \<le> rw)"
  shows "0 \<le> H_m (set_active_region rh rw st)"
    and "H_m (set_active_region rh rw st) \<le> pad_height_m st"
    and "0 \<le> W_m (set_active_region rh rw st)"
    and "W_m (set_active_region rh rw st) \<le> pad_width_m st"
    and "N_m (set_active_region rh rw st)
       = W_m (set_active_region rh rw st) * H_m (set_active_region rh rw st)"
  using assms by (auto simp: set_active_region_def)

lemma active_entries_fit:
  assumes "0 \<le> H" "H \<le> ph" "0 \<le> W" "W \<le> pw" "0 \<le> (M::int)" "ph * pw * M \<le> cap"
  shows "W * H * M \<le> cap"
proof -
  have "W * H \<le> pw * ph" using assms by (intro mult_mono) simp_all
  then have "W * H * M \<le> pw * ph * M" using assms(5) by (rule mult_right_mono)
  with assms(6) show ?thesis by (simp add: mult.commute)
qed

lemma set_active_region_buffers [simp]:
  "next_m (set_active_region rh rw st) = next_m st"
  "tmp_m (set_active_region rh rw st) = tmp_m st"
  "max_iter_m (set_active_region rh rw st) = max_iter_m st"
  by (simp_all add: set_active_region_def)

lemma Forward_image_processes:
  assumes rs: "Reshape bottom tops0 st0 = Inr (st, tops)"
    and al: "buffers_allocated st0" and inp: "inputs_stored bottom"
    and n: "0 \<le> n" "n < num_m st"
    and rec: "(0 \<le> real_img_height (bottom ! 1) n
          \<and> real_img_height (bottom ! 1) n \<le> pad_height_m st
          \<and> 0 \<le> real_img_width (bottom ! 1) n
          \<and> real_img_width (bottom ! 1) n \<le> pad_width_m st)
       \<or> (pad_height_m st \<le> real_img_height (bottom ! 1) n
          \<and> pad_width_m st \<le> real_img_width (bottom ! 1) n)"
    and N: "N_m (set_active_region (real_img_height (bottom ! 1) n)
              (real_img_width (bottom ! 1) n) st) \<le> map_element_m st"
  shows "\<exists>r. Forward_image ext sse bottom n (st, tops) = Inr r"
proof -
  let ?rh = "real_img_height (bottom ! 1) n" and ?rw = "real_img_width (bottom ! 1) n"
  let ?s1 = "set_active_region ?rh ?rw st"
  let ?s2 = "SetupUnaryEnergy (data (bottom ! 0)) (offset (bottom ! 0) n) ?s1"
  let ?M = "M_m st" and ?ph = "pad_height_m st" and ?pw = "pad_width_m st"
  note r = Reshape_InrD [OF rs]
  note ri = Reshape_inputs [OF rs]
  note i = inputs_storedD [OF inp r(1)]
  have M: "0 < ?M" and ph: "0 \<le> ?ph" and pw: "0 \<le> ?pw"
    using r(4-6) i(1,4) by (simp_all add: stored_def)
  have sh: "tops_shaped st tops"
    by (rule Reshape_tops_shaped [OF rs]) (use i(1) in \<open>simp_all add: stored_def\<close>)
  have ba: "buffers_allocated st" by (rule Reshape_buffers_allocated [OF rs al])
  have rd: "unary_ready st"
    by (rule Reshape_unary_ready [OF rs])
      (use i(1,4) al in \<open>simp_all add: stored_def buffers_allocated_def\<close>)
  have cap: "?ph * ?pw * ?M \<le> int (length (unary_m st))"
    "?ph * ?pw * ?M \<le> int (length (current_m st))"
    "?ph * ?pw * ?M \<le> int (length (next_m st))"
    using r(17) ba by (simp_all add: buffers_allocated_def)
  note a = active_region_inside [OF ph pw rec]
  have d: "in_buf (data (bottom ! 1)) (offset (bottom ! 1) n)"
    "in_buf (data (bottom ! 1)) (offset (bottom ! 1) n + 1)"
    by (rule record_readable [OF i(2) i(5)]; use n ri in simp)+
  have blk: "0 \<le> offset (bottom ! 0) n"
    "offset (bottom ! 0) n + ?M * (?ph * ?pw) \<le> int (length (data (bottom ! 0)))"
    using stored_block [OF i(1), of n] n r(3-6) by simp_all
  have f1: "SetupUnaryEnergy_fault (data (bottom ! 0)) (offset (bottom ! 0) n) ?s1 = None"
  proof (rule SetupUnaryEnergy_no_fault)
    show "unary_ready ?s1" using rd by simp
    show "H_m ?s1 \<le> pad_height_m ?s1" "W_m ?s1 \<le> pad_width_m ?s1"
      using a(2,4) by (simp_all del: One_nat_def)
    show "0 \<le> offset (bottom ! 0) n"
      "offset (bottom ! 0) n + M_m ?s1 * (pad_height_m ?s1 * pad_width_m ?s1)
         \<le> int (length (data (bottom ! 0)))"
      using blk by simp_all
  qed
  have s2: "g ?s2 = g ?s1"
    if "\<And>s x. g (s\<lparr>scale_m := x\<rparr>) = g s" "\<And>s x. g (s\<lparr>norm_data_m := x\<rparr>) = g s"
      "\<And>s x. g (s\<lparr>unary_m := x\<rparr>) = g s"
    for g :: "DenseCRFLayer \<Rightarrow> 'a"
    by (rule SetupUnaryEnergy_frame [of g, OF that])
  have im: "3 * (?ph * ?pw) \<le> int (length (data (bottom ! 2)))" if "has_image st"
  proof -
    have "0 \<le> (0::int)" "0 < num (bottom ! 2)" using n ri(2) by simp_all
    from stored_block [OF i(3) this] i(6) ri(3,4) [OF that]
    show ?thesis by (simp add: offset_def)
  qed
  have e2: "N_m ?s2 = N_m ?s1" "H_m ?s2 = H_m ?s1" "W_m ?s2 = W_m ?s1"
    "pad_height_m ?s2 = ?ph" "pad_width_m ?s2 = ?pw" "has_image ?s2 = has_image st"
    by (simp_all add: s2 [of N_m] s2 [of H_m] s2 [of W_m] s2 [of pad_height_m]
        s2 [of pad_width_m] s2 [of has_image] del: One_nat_def)
  have N0: "0 \<le> N_m ?s1" unfolding a(5) by (rule mult_nonneg_nonneg [OF a(3) a(1)])
  have f2: "SetupPairwiseFunctions_fault bottom ?s2 = None"
  proof (rule SetupPairwiseFunctions_no_fault)
    show "0 \<le> N_m ?s2" unfolding e2 by (rule N0)
    show "H_m ?s2 \<le> pad_height_m ?s2" "W_m ?s2 \<le> pad_width_m ?s2" "0 \<le> pad_width_m ?s2"
      unfolding e2 by (rule a pw)+
    show "has_image ?s2 \<and> 2 < length bottom
       \<longrightarrow> 3 * (pad_height_m ?s2 * pad_width_m ?s2) \<le> int (length (data (bottom ! 2)))"
      unfolding e2 using im by blast
  qed
  have f3: "ComputeMap_memset_fault n tops = None"
    by (rule ComputeMap_memset_no_fault [OF sh n])
  have f4: "ComputeMap_fault n tops st3 = None"
    if p: "SetupPairwiseFunctions bottom ?s2 = Inr st3" for st3
  proof -
    have f: "g st3 = g ?s1"
      if "\<And>s x. g (s\<lparr>pairwise_m := x\<rparr>) = g s" "\<And>s x. g (s\<lparr>scale_m := x\<rparr>) = g s"
        "\<And>s x. g (s\<lparr>norm_data_m := x\<rparr>) = g s" "\<And>s x. g (s\<lparr>unary_m := x\<rparr>) = g s"
      for g :: "DenseCRFLayer \<Rightarrow> 'a"
      using SetupPairwise_frame [of g, OF that(1) p] s2 [of g, OF that(2-4)] by simp
    have u: "length (unary_m st3) = length (unary_m st)"
      using SetupPairwise_frame [of unary_m, OF _ p] by simp
    have e: "M_m st3 = ?M" "pad_height_m st3 = ?ph" "pad_width_m st3 = ?pw"
      "num_m st3 = num_m st" "current_m st3 = current_m st" "next_m st3 = next_m st"
      by (simp_all add: f [of M_m] f [of pad_height_m] f [of pad_width_m] f [of num_m]
          f [of current_m] f [of next_m] del: One_nat_def)
    have e': "H_m st3 = H_m ?s1" "W_m st3 = W_m ?s1" "N_m st3 = N_m ?s1"
      by (simp_all add: f [of H_m] f [of W_m] f [of N_m] del: One_nat_def)
    have sh3: "tops_shaped st3 tops" by (rule tops_shaped_cong [OF sh]) (simp_all add: e)
    have M0: "0 \<le> ?M" using M by simp
    have fit: "N_m st3 * M_m st3 \<le> cap" if "?ph * ?pw * ?M \<le> cap" for cap
      unfolding e e' a(5) by (rule active_entries_fit [OF a(1-4) M0 that])
    show ?thesis
    proof (rule ComputeMap_no_fault [OF sh3])
      show "0 \<le> n" "n < num_m st3" "0 < M_m st3" using n M by (simp_all add: e)
      show "N_m st3 = W_m st3 * H_m st3" unfolding e' by (rule a(5))
      show "H_m st3 \<le> pad_height_m st3" "W_m st3 \<le> pad_width_m st3"
        unfolding e e' by (rule a)+
      show "N_m st3 * M_m st3 \<le> int (length (unary_m st3))" unfolding u by (rule fit [OF cap(1)])
      show "N_m st3 * M_m st3 \<le> int (length (current_m st3))"
        unfolding e(5) by (rule fit [OF cap(2)])
      show "N_m st3 * M_m st3 \<le> int (length (next_m st3))"
        unfolding e(6) by (rule fit [OF cap(3)])
    qed
  qed
  show ?thesis
    by (rule Forward_image_succeeds [OF _ _ r(8-10) d N f1 f2 f3 f4])
      (use r(1) in simp_all)
qed









lemma active_pixels:
  "N_m (set_active_region rh rw st)
     = (if pad_height_m st \<le> rh \<and> pad_width_m st \<le> rw
        then pad_width_m st * pad_height_m st else rw * rh)"
  by (simp add: set_active_region_def)


section \<open>One image of the batch\<close>

lemma Forward_image_decoder_state:
  assumes "Forward_image ext sse bottom n (st, tops) = Inr (st', tops')"
  obtains b1 st3 st4 where "bottom_at bottom 1 = Inr b1"
    "ComputeMap ext sse n tops st3 = Inr (st4, tops')"
    "st' = ClearPairwiseFunctions st4"
    "num_m st3 = num_m st" "M_m st3 = M_m st"
    "pad_height_m st3 = pad_height_m st" "pad_width_m st3 = pad_width_m st"
    "H_m st3 = H_m (set_active_region (real_img_height b1 n) (real_img_width b1 n) st)"
    "W_m st3 = W_m (set_active_region (real_img_height b1 n) (real_img_width b1 n) st)"
    "N_m (set_active_region (real_img_height b1 n) (real_img_width b1 n) st) \<le> map_element_m st"
proof -
  from assms obtain b0 b1 st3 st4 where d:
    "bottom_at bottom 1 = Inr b1"
    "N_m (set_active_region (real_img_height b1 n) (real_img_width b1 n) st) \<le> map_element_m st"
    "SetupPairwiseFunctions bottom (SetupUnaryEnergy (data b0) (offset b0 n)
       (set_active_region (real_img_height b1 n) (real_img_width b1 n) st)) = Inr st3"
    "ComputeMap ext sse n tops st3 = Inr (st4, tops')"
    "st' = ClearPairwiseFunctions st4"
    by (rule Forward_image_InrD)
  let ?s1 = "set_active_region (real_img_height b1 n) (real_img_width b1 n) st"
  have f: "g st3 = g ?s1"
    if "\<And>s x. g (s\<lparr>pairwise_m := x\<rparr>) = g s" "\<And>s x. g (s\<lparr>scale_m := x\<rparr>) = g s"
      "\<And>s x. g (s\<lparr>norm_data_m := x\<rparr>) = g s" "\<And>s x. g (s\<lparr>unary_m := x\<rparr>) = g s"
    for g :: "DenseCRFLayer \<Rightarrow> int"
    using SetupPairwise_frame [of g, OF that(1) d(3)] SetupUnaryEnergy_frame [of g, OF that(2-4)]
    by simp
  show ?thesis
    by (rule that [OF d(1) d(4) d(5) _ _ _ _ _ _ d(2)]) (simp_all add: f)
qed

lemma Forward_image_active_region:
  assumes "Forward_image ext sse bottom n (st, tops) = Inr (st', tops')"
  shows "H_m st' = H_m (set_active_region (real_img_height (bottom ! 1) n)
                          (real_img_width (bottom ! 1) n) st)"
    and "W_m st' = W_m (set_active_region (real_img_height (bottom ! 1) n)
                          (real_img_width (bottom ! 1) n) st)"
proof -
  from assms obtain b1 st3 st4 where d: "bottom_at bottom 1 = Inr b1"
    "ComputeMap ext sse n tops st3 = Inr (st4, tops')"
    "st' = ClearPairwiseFunctions st4"
    "H_m st3 = H_m (set_active_region (real_img_height b1 n) (real_img_width b1 n) st)"
    "W_m st3 = W_m (set_active_region (real_img_height b1 n) (real_img_width b1 n) st)"
    by (rule Forward_image_decoder_state)
  have b1: "b1 = bottom ! 1" using d(1) by (simp add: bottom_at_def split: if_splits)
  have r: "st4 = RunInference ext sse st3" by (rule ComputeMap_InrD(1) [OF d(2)])
  show "H_m st' = H_m (set_active_region (real_img_height (bottom ! 1) n)
                          (real_img_width (bottom ! 1) n) st)"
    and "W_m st' = W_m (set_active_region (real_img_height (bottom ! 1) n)
                          (real_img_width (bottom ! 1) n) st)"
    unfolding d(3) r using d(4,5) by (simp_all add: b1)
qed

lemma regrown_run_eval:
  "\<not> isl regrown_run"
  "M_m (fst (projr regrown_run)) = 1" "unary_element_m (fst (projr regrown_run)) = 16"
  "map_element_m (fst (projr regrown_run)) = 4"
  "pad_height_m (fst (projr regrown_run)) = 4" "pad_width_m (fst (projr regrown_run)) = 4"
  by (simp_all add: regrown_run_def then_reshape_def setup_then_reshape_def LayerSetUp_def
      bilateral_param_def zero_inputs_def new_layer_def Let_def Reshape_def bottom_at_def
      AllocateAllData_def DeAllocateAllData_def)

lemma zero_inputs_dims:
  "0 \<le> h \<Longrightarrow> real_img_height (zero_inputs m h w ! 1) 0 = h"
  "0 \<le> w \<Longrightarrow> real_img_width (zero_inputs m h w ! 1) 0 = w"
  by (simp_all add: real_img_height_def real_img_width_def zero_inputs_def offset_def to_int_def)

lemma framed_reshaped:
  "\<exists>st0 st tops. LayerSetUp bilateral_param (framed_inputs 2 2 3 rh rw) new_layer = Inr st0
     \<and> Reshape (framed_inputs 2 2 3 rh rw) (empty_blob, empty_blob) st0 = Inr (st, tops)
     \<and> setup_then_reshape bilateral_param (framed_inputs 2 2 3 rh rw) = Inr (st, tops)
     \<and> buffers_allocated st0
     \<and> M_m st = 2 \<and> pad_height_m st = 2 \<and> pad_width_m st = 3 \<and> num_m st = 1
     \<and> map_element_m st = 6 \<and> unary_element_m st = 12 \<and> pos_w_m st = [3]"
proof -
  let ?b = "framed_inputs 2 2 3 rh rw"
  obtain st0 where s0: "LayerSetUp bilateral_param ?b new_layer = Inr st0"
    by (simp add: LayerSetUp_def bilateral_param_def framed_inputs_def new_layer_def Let_def)
  then have f0: "has_image st0" "unary_element_m st0 = 0" "buffers_allocated st0"
    by (auto simp: LayerSetUp_def bilateral_param_def framed_inputs_def new_layer_def Let_def
        buffers_allocated_def)
  obtain st tops where r: "Reshape ?b (empty_blob, empty_blob) st0 = Inr (st, tops)"
    using f0 by (simp add: Reshape_def bottom_at_def framed_inputs_def Let_def)
  have c: "channels (?b ! 0) = 2" "height (?b ! 0) = 2" "width (?b ! 0) = 3" "num (?b ! 0) = 1"
    by (simp_all add: framed_inputs_def)
  note d = Reshape_InrD [OF r]
  have e: "ensured_capacity st0 (footprint (?b ! 0)) st" by (rule Reshape_ensured [OF r])
  have p0: "pos_w_m st0 = [3]"
    using s0 by (auto simp: LayerSetUp_def bilateral_param_def framed_inputs_def new_layer_def
        Let_def)
  have m: "map_element_m st = 6" "pos_w_m st = pos_w_m st0"
    using r f0 by (auto simp: Reshape_def bottom_at_def framed_inputs_def Let_def
        AllocateAllData_def DeAllocateAllData_def split: if_splits)
  have u: "unary_element_m st = 12"
    using e f0 by (simp add: ensured_capacity_def footprint_def c)
  have "M_m st = 2" "pad_height_m st = 2" "pad_width_m st = 3" "num_m st = 1"
    using d(3-6) c by simp_all
  moreover have "setup_then_reshape bilateral_param ?b = Inr (st, tops)"
    by (simp add: setup_then_reshape_def s0 r)
  ultimately show ?thesis using s0 r m u f0(3) p0 by simp
qed

lemma framed_dims:
  "real_img_height (framed_inputs m h w rh rw ! 1) 0 = rh"
  "real_img_width (framed_inputs m h w rh rw ! 1) 0 = rw"
  "length (framed_inputs m h w rh rw) = 3"
  by (simp_all add: real_img_height_def real_img_width_def framed_inputs_def offset_def
      to_int_def)


lemma crop_reshaped:
  "\<exists>st0 st tops. LayerSetUp bilateral_param crop_inputs new_layer = Inr st0
     \<and> Reshape crop_inputs (empty_blob, empty_blob) st0 = Inr (st, tops)
     \<and> buffers_allocated st0
     \<and> M_m st = 2 \<and> pad_height_m st = 2 \<and> pad_width_m st = 3 \<and> num_m st = 1
     \<and> map_element_m st = 6 \<and> unary_element_m st = 12 \<and> tops_shaped st tops"
proof -
  obtain st0 where s0: "LayerSetUp bilateral_param crop_inputs new_layer = Inr st0"
    by (simp add: LayerSetUp_def bilateral_param_def crop_inputs_def new_layer_def Let_def)
  then have f0: "has_image st0" "unary_element_m st0 = 0" "buffers_allocated st0"
    by (auto simp: LayerSetUp_def bilateral_param_def crop_inputs_def new_layer_def Let_def
        buffers_allocated_def)
  obtain st tops where r: "Reshape crop_inputs (empty_blob, empty_blob) st0 = Inr (st, tops)"
    using f0 by (simp add: Reshape_def bottom_at_def crop_inputs_def Let_def)
  have c: "channels (crop_inputs ! 0) = 2" "height (crop_inputs ! 0) = 2"
    "width (crop_inputs ! 0) = 3" "num (crop_inputs ! 0) = 1"
    by (simp_all add: crop_inputs_def)
  note d = Reshape_InrD [OF r]
  have sh: "tops_shaped st tops" by (rule Reshape_tops_shaped [OF r]) (simp_all add: c)
  have e: "ensured_capacity st0 (footprint (crop_inputs ! 0)) st" by (rule Reshape_ensured [OF r])
  have m: "map_element_m st = 6"
    using r f0 by (auto simp: Reshape_def bottom_at_def crop_inputs_def Let_def
        AllocateAllData_def DeAllocateAllData_def split: if_splits)
  have u: "unary_element_m st = 12"
    using e f0 by (simp add: ensured_capacity_def footprint_def c)
  have "M_m st = 2" "pad_height_m st = 2" "pad_width_m st = 3" "num_m st = 1"
    using d(3-6) c by simp_all
  with s0 r sh m u f0(3) show ?thesis by blast
qed

lemma crop_dims:
  "real_img_height (crop_inputs ! 1) 0 = 1" "real_img_width (crop_inputs ! 1) 0 = 2"
  "length crop_inputs = 3"
  by (simp_all add: real_img_height_def real_img_width_def crop_inputs_def offset_def to_int_def)

lemma crop_stored: "inputs_stored crop_inputs"
  by (simp add: inputs_stored_def stored_def crop_inputs_def count_def)

lemma crop_forward:
  "\<exists>st0 st tops st' tops'. LayerSetUp bilateral_param crop_inputs new_layer = Inr st0
     \<and> Reshape crop_inputs (empty_blob, empty_blob) st0 = Inr (st, tops)
     \<and> M_m st = 2 \<and> pad_height_m st = 2 \<and> pad_width_m st = 3 \<and> num_m st = 1
     \<and> tops_shaped st tops
     \<and> Forward_image exact_ext False crop_inputs 0 (st, tops) = Inr (st', tops')"
proof -
  from crop_reshaped obtain st0 st tops where
    s0: "LayerSetUp bilateral_param crop_inputs new_layer = Inr st0"
    and r: "Reshape crop_inputs (empty_blob, empty_blob) st0 = Inr (st, tops)"
    and al: "buffers_allocated st0"
    and f: "M_m st = 2" "pad_height_m st = 2" "pad_width_m st = 3" "num_m st = 1"
      "map_element_m st = 6" and sh: "tops_shaped st tops"
    by blast
  have N: "N_m (set_active_region (real_img_height (crop_inputs ! 1) 0)
      (real_img_width (crop_inputs ! 1) 0) st) \<le> map_element_m st"
    unfolding crop_dims active_pixels by (simp add: f)
  have "\<exists>r. Forward_image exact_ext False crop_inputs 0 (st, tops) = Inr r"
    by (rule Forward_image_processes [OF r al crop_stored _ _ _ N])
      (unfold crop_dims, simp_all add: f)
  then obtain st' tops' where
    "Forward_image exact_ext False crop_inputs 0 (st, tops) = Inr (st', tops')" by force
  with s0 r f sh show ?thesis by blast
qed




text \<open>
  The two other outcomes of a record outside the padded extent, on the engine of the
  counterexample. A record (3, 2) exceeds the padded height only: its 6 active pixels
  pass the capacity check, and the crop loop of \<^verbatim>\<open>SetupUnaryEnergy\<close> writes \<^verbatim>\<open>unary_[15]\<close>
  in a buffer of 12 entries. A record (-1, 2) gives \<open>N_ = -2\<close>, which passes the check as
  well, and \<^verbatim>\<open>SetupPairwiseFunctions\<close> asks for an array of \<open>-4\<close> entries. Neither image is
  covered by the statement about processed images above.
\<close>

lemma framed_ready:
  assumes r: "Reshape (framed_inputs 2 2 3 rh rw) (empty_blob, empty_blob) st0 = Inr (st, tops)"
    and al: "buffers_allocated st0"
  shows "unary_ready st"
    and "0 \<le> offset (framed_inputs 2 2 3 rh rw ! 0) 0"
    and "offset (framed_inputs 2 2 3 rh rw ! 0) 0 + M_m st * (pad_height_m st * pad_width_m st)
           \<le> int (length (data (framed_inputs 2 2 3 rh rw ! 0)))"
    and "in_buf (data (framed_inputs 2 2 3 rh rw ! 1)) (offset (framed_inputs 2 2 3 rh rw ! 1) 0)"
    and "in_buf (data (framed_inputs 2 2 3 rh rw ! 1))
           (offset (framed_inputs 2 2 3 rh rw ! 1) 0 + 1)"
proof -
  note d = Reshape_InrD [OF r]
  show "unary_ready st"
    by (rule Reshape_unary_ready [OF r])
      (use al in \<open>simp_all add: framed_inputs_def buffers_allocated_def\<close>)
  show "0 \<le> offset (framed_inputs 2 2 3 rh rw ! 0) 0" by (simp add: offset_def)
  show "offset (framed_inputs 2 2 3 rh rw ! 0) 0 + M_m st * (pad_height_m st * pad_width_m st)
           \<le> int (length (data (framed_inputs 2 2 3 rh rw ! 0)))"
    unfolding d(4-6) by (simp add: offset_def framed_inputs_def)
  show "in_buf (data (framed_inputs 2 2 3 rh rw ! 1)) (offset (framed_inputs 2 2 3 rh rw ! 1) 0)"
    "in_buf (data (framed_inputs 2 2 3 rh rw ! 1))
           (offset (framed_inputs 2 2 3 rh rw ! 1) 0 + 1)"
    by (simp_all add: in_buf_def offset_def framed_inputs_def)
qed

lemma tall_record_overruns:
  "Forward_image exact_ext False (framed_inputs 2 2 3 3 2) 0
     (projr (setup_then_reshape bilateral_param (framed_inputs 2 2 3 3 2)))
   = Inl (BufferOverrun ''SetupUnaryEnergy: crop'')"
proof -
  let ?b = "framed_inputs 2 2 3 3 2"
  from framed_reshaped [of 3 2] obtain st0 st tops where
    r: "Reshape ?b (empty_blob, empty_blob) st0 = Inr (st, tops)"
    and s: "setup_then_reshape bilateral_param ?b = Inr (st, tops)"
    and al: "buffers_allocated st0"
    and f: "M_m st = 2" "pad_height_m st = 2" "pad_width_m st = 3" "num_m st = 1"
      "map_element_m st = 6" "unary_element_m st = 12"
    by blast
  note y = framed_ready [OF r al]
  let ?s1 = "set_active_region 3 2 st"
  have a: "H_m ?s1 = 3" "W_m ?s1 = 2" "N_m ?s1 = 6"
    by (simp_all add: set_active_region_def f)
  have l: "length (unary_m st) = 12"
    using Reshape_buffers_allocated [OF r al] f by (simp add: buffers_allocated_def)
  have "SetupUnaryEnergy_fault (data (?b ! 0)) (offset (?b ! 0) 0) ?s1
      = Some (BufferOverrun ''SetupUnaryEnergy: crop'')"
  proof (rule SetupUnaryEnergy_crop_fault [where c = 1 and h = 2 and w = 1])
    show "unary_ready ?s1" using y(1) by simp
    show "0 \<le> offset (?b ! 0) 0"
      "offset (?b ! 0) 0 + M_m ?s1 * (pad_height_m ?s1 * pad_width_m ?s1)
         \<le> int (length (data (?b ! 0)))"
      using y(2,3) by simp_all
    show "\<not> in_buf (unary_m ?s1) ((2 * pad_width_m ?s1 + 1) * M_m ?s1 + 1)"
      by (simp add: in_buf_def f l)
  qed (simp_all add: a f)
  then have "Forward_image exact_ext False ?b 0 (st, tops)
      = Inl (BufferOverrun ''SetupUnaryEnergy: crop'')"
    using y(4,5) a(3) f(5)
    by (simp add: Forward_image_def bottom_at_def Let_def framed_dims del: One_nat_def)
  then show ?thesis by (simp add: s)
qed

lemma negative_record_throws:
  "Forward_image exact_ext False (framed_inputs 2 2 3 (- 1) 2) 0
     (projr (setup_then_reshape bilateral_param (framed_inputs 2 2 3 (- 1) 2)))
   = Inl (BadArrayLength (- 4))"
proof -
  let ?b = "framed_inputs 2 2 3 (- 1) 2"
  from framed_reshaped [of "- 1" 2] obtain st0 st tops where
    r: "Reshape ?b (empty_blob, empty_blob) st0 = Inr (st, tops)"
    and s: "setup_then_reshape bilateral_param ?b = Inr (st, tops)"
    and al: "buffers_allocated st0"
    and f: "M_m st = 2" "pad_height_m st = 2" "pad_width_m st = 3" "num_m st = 1"
      "map_element_m st = 6" "unary_element_m st = 12" "pos_w_m st = [3]"
    by blast
  note y = framed_ready [OF r al]
  let ?s1 = "set_active_region (- 1) 2 st"
  let ?s2 = "SetupUnaryEnergy (data (?b ! 0)) (offset (?b ! 0) 0) ?s1"
  have a: "H_m ?s1 = - 1" "W_m ?s1 = 2" "N_m ?s1 = - 2" "pos_w_m ?s1 = [3]"
    by (simp_all add: set_active_region_def f)
  have f1: "SetupUnaryEnergy_fault (data (?b ! 0)) (offset (?b ! 0) 0) ?s1 = None"
  proof (rule SetupUnaryEnergy_no_fault)
    show "unary_ready ?s1" using y(1) by simp
    show "0 \<le> offset (?b ! 0) 0"
      "offset (?b ! 0) 0 + M_m ?s1 * (pad_height_m ?s1 * pad_width_m ?s1)
         \<le> int (length (data (?b ! 0)))"
      using y(2,3) by simp_all
  qed (simp_all add: a f)
  have e: "N_m ?s2 = - 2" "pos_w_m ?s2 = [3]"
    using SetupUnaryEnergy_frame [of N_m "data (?b ! 0)" "offset (?b ! 0) 0" ?s1]
      SetupUnaryEnergy_frame [of pos_w_m "data (?b ! 0)" "offset (?b ! 0) 0" ?s1] a
    by simp_all
  have f2: "SetupPairwiseFunctions_fault ?b ?s2 = Some (BadArrayLength (- 4))"
    by (simp add: SetupPairwiseFunctions_fault_def e)
  have "Forward_image exact_ext False ?b 0 (st, tops) = Inl (BadArrayLength (- 4))"
    using y(4,5) a(3) f(5) f1 f2
    by (simp add: Forward_image_def bottom_at_def Let_def framed_dims del: One_nat_def)
  then show ?thesis by (simp add: s)
qed

text \<open>
  Without the agreement of the two capacities the check is not a check of the footprint:
  after a reshape for 2 x 2 pixels with 4 classes and a reshape for 4 x 4 pixels with 1
  class, the unary capacity is 16 and the capacity in pixels is still 4. An image of
  4 x 4 pixels has the footprint 16, which fits, and the pass aborts on it.
\<close>

lemma regrown_capacity_aborts:
  "\<not> isl regrown_run
   \<and> real_img_height (zero_inputs 1 4 4 ! 1) 0 * real_img_width (zero_inputs 1 4 4 ! 1) 0
       * M_m (fst (projr regrown_run)) \<le> unary_element_m (fst (projr regrown_run))
   \<and> capacity_abort (Forward_image exact_ext False (zero_inputs 1 4 4) 0 (projr regrown_run))"
proof -
  have d: "real_img_height (zero_inputs 1 4 4 ! 1) 0 = 4"
    "real_img_width (zero_inputs 1 4 4 ! 1) 0 = 4"
    by (rule zero_inputs_dims, simp)+
  have l: "2 \<le> length (zero_inputs 1 4 4)" by (simp add: zero_inputs_def)
  have i: "in_buf (data (zero_inputs 1 4 4 ! 1)) (offset (zero_inputs 1 4 4 ! 1) 0)"
    "in_buf (data (zero_inputs 1 4 4 ! 1)) (offset (zero_inputs 1 4 4 ! 1) 0 + 1)"
    by (simp_all add: in_buf_def offset_def zero_inputs_def)
  have "capacity_abort (Forward_image exact_ext False (zero_inputs 1 4 4) 0
      (fst (projr regrown_run), snd (projr regrown_run)))"
    unfolding Forward_image_capacity_abort_iff [OF l i] d active_pixels
    by (simp add: regrown_run_eval)
  then show ?thesis using regrown_run_eval d by simp
qed

text \<open>
  C9: when the pass over image \<open>n\<close> succeeds and both real dimensions are strictly below
  the padded ones, every entry of the inference map (all \<open>M\<close> channels) and of the label
  map of that image at a padded position outside the active rectangle is zero.
\<close>

theorem C9_zero_outside_active_region:
  assumes fi: "Forward_image ext sse bottom n (st, tops) = Inr (st', tops')"
    and sh: "tops_shaped st tops" and n: "0 \<le> n" "n < num_m st"
    and rh: "real_img_height (bottom ! 1) n < pad_height_m st"
    and rw: "real_img_width (bottom ! 1) n < pad_width_m st"
  shows "(\<forall>c h w. 0 \<le> c \<and> c < M_m st \<and> 0 \<le> h \<and> h < pad_height_m st
            \<and> 0 \<le> w \<and> w < pad_width_m st
            \<and> \<not> (h < real_img_height (bottom ! 1) n \<and> w < real_img_width (bottom ! 1) n)
          \<longrightarrow> data (fst tops')
                ! nat (offset (fst tops) n + ((c * pad_height_m st + h) * pad_width_m st + w)) = 0)
       \<and> (\<forall>h w. 0 \<le> h \<and> h < pad_height_m st \<and> 0 \<le> w \<and> w < pad_width_m st
            \<and> \<not> (h < real_img_height (bottom ! 1) n \<and> w < real_img_width (bottom ! 1) n)
          \<longrightarrow> data (snd tops') ! nat (offset (snd tops) n + (h * pad_width_m st + w)) = 0)"
proof -
  from fi obtain b1 st3 st4 where d: "bottom_at bottom 1 = Inr b1"
    "ComputeMap ext sse n tops st3 = Inr (st4, tops')"
    "num_m st3 = num_m st" "M_m st3 = M_m st"
    "pad_height_m st3 = pad_height_m st" "pad_width_m st3 = pad_width_m st"
    "H_m st3 = H_m (set_active_region (real_img_height b1 n) (real_img_width b1 n) st)"
    "W_m st3 = W_m (set_active_region (real_img_height b1 n) (real_img_width b1 n) st)"
    by (rule Forward_image_decoder_state)
  have b1: "b1 = bottom ! 1" using d(1) by (simp add: bottom_at_def split: if_splits)
  have HW: "H_m st3 = real_img_height (bottom ! 1) n" "W_m st3 = real_img_width (bottom ! 1) n"
    using d(7,8) rh by (simp_all add: b1 set_active_region_inside)
  have sh3: "tops_shaped st3 tops" by (rule tops_shaped_cong [OF sh d(3-6)])
  note z = ComputeMap_zero_outside [OF d(2) sh3, unfolded d(3-6) HW, OF n]
  show ?thesis
  proof (intro conjI allI impI)
    fix c h w
    assume "0 \<le> c \<and> c < M_m st \<and> 0 \<le> h \<and> h < pad_height_m st \<and> 0 \<le> w \<and> w < pad_width_m st
            \<and> \<not> (h < real_img_height (bottom ! 1) n \<and> w < real_img_width (bottom ! 1) n)"
    then show "data (fst tops')
        ! nat (offset (fst tops) n + ((c * pad_height_m st + h) * pad_width_m st + w)) = 0"
      using rh rw by (intro z(1)) simp_all
  next
    fix h w
    assume "0 \<le> h \<and> h < pad_height_m st \<and> 0 \<le> w \<and> w < pad_width_m st
            \<and> \<not> (h < real_img_height (bottom ! 1) n \<and> w < real_img_width (bottom ! 1) n)"
    then show "data (snd tops') ! nat (offset (snd tops) n + (h * pad_width_m st + w)) = 0"
      using rh rw by (intro z(2)) simp_all
  qed
qed

theorem C9_zero_outside_active_region_witness:
  "\<exists>st0 st tops st' tops'. LayerSetUp bilateral_param crop_inputs new_layer = Inr st0
     \<and> Reshape crop_inputs (empty_blob, empty_blob) st0 = Inr (st, tops)
     \<and> Forward_image exact_ext False crop_inputs 0 (st, tops) = Inr (st', tops')
     \<and> data (fst tops') ! 3 = 0 \<and> data (snd tops') ! 2 = 0"
proof -
  from crop_forward obtain st0 st tops st' tops' where
    s0: "LayerSetUp bilateral_param crop_inputs new_layer = Inr st0"
    and r: "Reshape crop_inputs (empty_blob, empty_blob) st0 = Inr (st, tops)"
    and f: "M_m st = 2" "pad_height_m st = 2" "pad_width_m st = 3" "num_m st = 1"
    and sh: "tops_shaped st tops"
    and fi: "Forward_image exact_ext False crop_inputs 0 (st, tops) = Inr (st', tops')"
    by blast
  have o: "offset (fst tops) 0 = 0" "offset (snd tops) 0 = 0" by (simp_all add: offset_def)
  have p: "(0::int) \<le> 0" "0 < num_m st"
    "real_img_height (crop_inputs ! 1) 0 < pad_height_m st"
    "real_img_width (crop_inputs ! 1) 0 < pad_width_m st"
    unfolding crop_dims using f by simp_all
  note z = C9_zero_outside_active_region [OF fi sh p]
  have "data (fst tops')
      ! nat (offset (fst tops) 0 + ((0 * pad_height_m st + 1) * pad_width_m st + 0)) = 0"
    by (rule z [THEN conjunct1, rule_format]) (unfold crop_dims, use f in simp)
  then have a: "data (fst tops') ! 3 = 0" using f o by simp
  have "data (snd tops') ! nat (offset (snd tops) 0 + (0 * pad_width_m st + 2)) = 0"
    by (rule z [THEN conjunct2, rule_format]) (unfold crop_dims, use f in simp)
  then have b: "data (snd tops') ! 2 = 0" using f o by simp
  from a b s0 r fi show ?thesis by blast
qed

text \<open>
  C10: when the pass over image \<open>n\<close> succeeds, with at least one class and an active region
  inside the padded extent, the label written for an active pixel is a class index \<open>l\<close>
  whose final marginal at that pixel is maximal, and every class below \<open>l\<close> has a strictly
  smaller marginal: the smallest class index attaining the maximum.
\<close>

theorem C10_label_is_first_maximum:
  assumes fi: "Forward_image ext sse bottom n (st, tops) = Inr (st', tops')"
    and sh: "tops_shaped st tops" and n: "0 \<le> n" "n < num_m st"
    and M: "0 < M_m st"
    and H: "H_m st' \<le> pad_height_m st" and W: "W_m st' \<le> pad_width_m st"
    and h: "0 \<le> h" "h < H_m st'" and w: "0 \<le> w" "w < W_m st'"
  shows "\<exists>l. data (snd tops') ! nat (offset (snd tops) n + (h * pad_width_m st + w)) = of_int l
       \<and> 0 \<le> l \<and> l < M_m st
       \<and> (\<forall>c \<in> {0..M_m st - 1}. current_m st' ! nat ((h * W_m st' + w) * M_m st + c)
                                \<le> current_m st' ! nat ((h * W_m st' + w) * M_m st + l))
       \<and> (\<forall>c \<in> {0..M_m st - 1}. c < l \<longrightarrow>
             current_m st' ! nat ((h * W_m st' + w) * M_m st + c)
               < current_m st' ! nat ((h * W_m st' + w) * M_m st + l))"
proof -
  from fi obtain st3 st4 where d:
    "ComputeMap ext sse n tops st3 = Inr (st4, tops')"
    "st' = ClearPairwiseFunctions st4"
    "num_m st3 = num_m st" "M_m st3 = M_m st"
    "pad_height_m st3 = pad_height_m st" "pad_width_m st3 = pad_width_m st"
    by (rule Forward_image_decoder_state)
  have r: "st4 = RunInference ext sse st3" by (rule ComputeMap_InrD(1) [OF d(1)])
  have e: "H_m st' = H_m st3" "W_m st' = W_m st3" "current_m st' = current_m st4"
    unfolding d(2) r by simp_all
  have sh3: "tops_shaped st3 tops" by (rule tops_shaped_cong [OF sh d(3-6)])
  let ?f = "\<lambda>c. current_m st4 ! nat ((h * W_m st3 + w) * M_m st3 + c)"
  have lab: "data (snd tops') ! nat (offset (snd tops) n + (h * pad_width_m st3 + w))
      = of_int (argmax_scan ?f (M_m st3))"
    by (rule ComputeMap_label [OF d(1) sh3]) (use n M H W h w d e in simp_all)
  have M3: "0 < M_m st3" using M d by simp
  from argmax_scan_first_max [OF M3, of ?f] lab show ?thesis
    unfolding e d(4) d(6) by blast
qed

theorem C10_label_is_first_maximum_witness:
  "\<exists>st0 st tops st' tops'. LayerSetUp bilateral_param crop_inputs new_layer = Inr st0
     \<and> Reshape crop_inputs (empty_blob, empty_blob) st0 = Inr (st, tops)
     \<and> Forward_image exact_ext False crop_inputs 0 (st, tops) = Inr (st', tops')
     \<and> (data (snd tops') ! 1 = 0 \<or> data (snd tops') ! 1 = 1)"
proof -
  from crop_forward obtain st0 st tops st' tops' where
    s0: "LayerSetUp bilateral_param crop_inputs new_layer = Inr st0"
    and r: "Reshape crop_inputs (empty_blob, empty_blob) st0 = Inr (st, tops)"
    and f: "M_m st = 2" "pad_height_m st = 2" "pad_width_m st = 3" "num_m st = 1"
    and sh: "tops_shaped st tops"
    and fi: "Forward_image exact_ext False crop_inputs 0 (st, tops) = Inr (st', tops')"
    by blast
  have o: "offset (snd tops) 0 = 0" by (simp add: offset_def)
  have a: "H_m st' = 1" "W_m st' = 2"
    using Forward_image_active_region [OF fi] unfolding crop_dims
    by (simp_all add: set_active_region_inside f)
  have p: "(0::int) \<le> 0" "0 < num_m st" "0 < M_m st" "H_m st' \<le> pad_height_m st"
    "W_m st' \<le> pad_width_m st" "(0::int) \<le> 0" "0 < H_m st'" "(0::int) \<le> 1" "1 < W_m st'"
    using a f by simp_all
  from C10_label_is_first_maximum [OF fi sh p] obtain l where
    "data (snd tops') ! nat (offset (snd tops) 0 + (0 * pad_width_m st + 1)) = of_int l"
    "0 \<le> l" "l < M_m st"
    by blast
  then have "data (snd tops') ! 1 = of_int l" "l = 0 \<or> l = 1" using f o by auto
  then have "data (snd tops') ! 1 = 0 \<or> data (snd tops') ! 1 = 1" by auto
  with s0 r fi show ?thesis by blast
qed

end
